theory Spec2Isabelle
  imports Main "HOL-Library.Word" "HOL-Library.Signed_Division"
begin

section \<open>The output stream and the files it writes\<close>

text \<open>
  \<^verbatim>\<open>std::ofstream m_OutputStream\<close> is modelled by the two facts the profiler depends on:
  the file the stream has open (if any) and whether an error bit (failbit or badbit) is
  set. Every insertion in \<^verbatim>\<open>VisualProfiler.h\<close> is followed by \<^verbatim>\<open>flush()\<close> before the
  function returns, so the model writes through: inserted characters are appended to the
  file at once. A file system is a partial map from paths to file contents; which paths
  can be opened for writing is a parameter of the environment.
\<close>

record ofstream =
  os_path :: "string option"
  os_failed :: bool

type_synonym filesystem = "string \<Rightarrow> string option"

text \<open>
  \<^verbatim>\<open>ofstream::open\<close>: fails (failbit) when the stream already has a file open or the
  file cannot be opened; on success the file is truncated and the error state cleared.
\<close>

definition os_open :: "(string \<Rightarrow> bool) \<Rightarrow> string \<Rightarrow> ofstream \<times> filesystem \<Rightarrow> ofstream \<times> filesystem" where
  "os_open ok p sf =
     (case sf of (s, f) \<Rightarrow>
        if os_path s \<noteq> None then (s\<lparr>os_failed := True\<rparr>, f)
        else if ok p then (s\<lparr>os_path := Some p, os_failed := False\<rparr>, f(p \<mapsto> []))
        else (s\<lparr>os_failed := True\<rparr>, f))"

text \<open>
  \<^verbatim>\<open>operator<<\<close>: does nothing on a stream whose error state is set; on a stream with
  no open file the characters cannot be stored and badbit is set; otherwise the
  characters are appended to the open file.
\<close>

definition os_put :: "string \<Rightarrow> ofstream \<times> filesystem \<Rightarrow> ofstream \<times> filesystem" where
  "os_put cs sf =
     (case sf of (s, f) \<Rightarrow>
        if os_failed s \<or> cs = [] then (s, f)
        else (case os_path s of
                None \<Rightarrow> (s\<lparr>os_failed := True\<rparr>, f)
              | Some p \<Rightarrow> (s, f(p \<mapsto> (case f p of None \<Rightarrow> [] | Some old \<Rightarrow> old) @ cs))))"

text \<open>\<^verbatim>\<open>flush()\<close>: the model writes through, so nothing is left to do.\<close>

definition os_flush :: "ofstream \<times> filesystem \<Rightarrow> ofstream \<times> filesystem" where
  "os_flush sf = sf"

text \<open>\<^verbatim>\<open>ofstream::close\<close>: fails (failbit) when no file is open.\<close>

definition os_close :: "ofstream \<times> filesystem \<Rightarrow> ofstream \<times> filesystem" where
  "os_close sf =
     (case sf of (s, f) \<Rightarrow>
        if os_path s = None then (s\<lparr>os_failed := True\<rparr>, f)
        else (s\<lparr>os_path := None\<rparr>, f))"

section \<open>Decimal output of integers\<close>

text \<open>
  \<^verbatim>\<open>operator<<\<close> on \<^verbatim>\<open>long long\<close> and \<^verbatim>\<open>uint32_t\<close> prints decimal digits without
  leading zeros, with a minus sign for a negative value.
\<close>

definition digit_char :: "nat \<Rightarrow> char" where
  "digit_char d = ''0123456789'' ! d"

fun show_nat :: "nat \<Rightarrow> string" where
  "show_nat n = (if n < 10 then [digit_char n] else show_nat (n div 10) @ [digit_char (n mod 10)])"

declare show_nat.simps [simp del]

definition show_int :: "int \<Rightarrow> string" where
  "show_int i = (if i < 0 then CHR ''-'' # show_nat (nat (- i)) else show_nat (nat i))"

section \<open>The trace sink: \<^verbatim>\<open>Instrumentor\<close>\<close>

record ProfileResult =
  m_Name :: string
  m_ExecutionStart :: "64 word"
  m_ExecutionEnd :: "64 word"
  m_ThreadID :: "32 word"

record Instrumentor =
  m_SessionName :: string
  m_OutputStream :: ofstream
  m_ProfileCount :: "32 word"
  m_IsSessionActive :: bool

text \<open>
  The singleton together with its environment: the file system and the paths that can be
  opened for writing. \<^verbatim>\<open>m_Lock\<close> serialises the calls of \<^verbatim>\<open>WriteProfile\<close>; the model
  runs them one after the other, in the order in which they acquire the lock.
\<close>

record world =
  sink :: Instrumentor
  files :: filesystem
  openable :: "string \<Rightarrow> bool"

definition initial :: "(string \<Rightarrow> bool) \<Rightarrow> filesystem \<Rightarrow> world" where
  "initial ok f =
     \<lparr>sink = \<lparr>m_SessionName = ''None'',
               m_OutputStream = \<lparr>os_path = None, os_failed = False\<rparr>,
               m_ProfileCount = 0,
               m_IsSessionActive = False\<rparr>,
      files = f, openable = ok\<rparr>"

definition on_stream :: "(ofstream \<times> filesystem \<Rightarrow> ofstream \<times> filesystem) \<Rightarrow> world \<Rightarrow> world" where
  "on_stream g w =
     (case g (m_OutputStream (sink w), files w) of
        (s, f) \<Rightarrow> w\<lparr>sink := (sink w)\<lparr>m_OutputStream := s\<rparr>, files := f\<rparr>)"

definition out :: "string \<Rightarrow> world \<Rightarrow> world" where
  "out cs = on_stream (os_put cs)"

definition WriteHeader :: "world \<Rightarrow> world" where
  \<open>WriteHeader w = on_stream os_flush (out ''{"otherData": {},"traceEvents":['' w)\<close>

definition WriteFooter :: "world \<Rightarrow> world" where
  \<open>WriteFooter w = on_stream os_flush (out '']}'' w)\<close>

definition EndSession :: "world \<Rightarrow> world" where
  "EndSession w =
     (if \<not> m_IsSessionActive (sink w) then w
      else
        let w1 = w\<lparr>sink := (sink w)\<lparr>m_IsSessionActive := False\<rparr>\<rparr>;
            w2 = WriteFooter w1;
            w3 = on_stream os_close w2
        in w3\<lparr>sink := (sink w3)\<lparr>m_ProfileCount := 0\<rparr>\<rparr>)"

definition BeginSession :: "string \<Rightarrow> string \<Rightarrow> world \<Rightarrow> world" where
  "BeginSession name filePath w =
     (let w0 = (if m_IsSessionActive (sink w) then EndSession w else w);
          w1 = w0\<lparr>sink := (sink w0)\<lparr>m_IsSessionActive := True\<rparr>\<rparr>;
          w2 = on_stream (os_open (openable w1) filePath) w1;
          w3 = WriteHeader w2
      in w3\<lparr>sink := (sink w3)\<lparr>m_SessionName := name\<rparr>\<rparr>)"

text \<open>\<^verbatim>\<open>std::replace(first, last, old_value, new_value)\<close> on a string.\<close>

fun std_replace :: "string \<Rightarrow> char \<Rightarrow> char \<Rightarrow> string" where
  "std_replace [] old new = []"
| "std_replace (c # cs) old new = (if c = old then new else c) # std_replace cs old new"

text \<open>
  \<^verbatim>\<open>m_ProfileCount\<close> is an \<^verbatim>\<open>int\<close>: the test \<^verbatim>\<open>m_ProfileCount++ > 0\<close> reads the old
  value as a signed 32-bit number and then increments it.
\<close>

definition WriteProfile :: "ProfileResult \<Rightarrow> world \<Rightarrow> world" where
  \<open>WriteProfile result w =
     (let old = m_ProfileCount (sink w);
          w1 = w\<lparr>sink := (sink w)\<lparr>m_ProfileCount := old + 1\<rparr>\<rparr>;
          w2 = (if 0 <s old then out '','' w1 else w1);
          name = std_replace (m_Name result) (CHR 0x22) (CHR 0x27);
          w3 = out ''{'' w2;
          w4 = out ''"cat":"function",'' w3;
          w5 = out '','' (out (show_int (sint (m_ExecutionEnd result - m_ExecutionStart result)))
                 (out ''"dur":'' w4));
          w6 = out ''",'' (out name (out ''"name":"'' w5));
          w7 = out ''"ph":"X",'' w6;
          w8 = out ''"pid":0,'' w7;
          w9 = out '','' (out (show_int (uint (m_ThreadID result))) (out ''"tid":'' w8));
          w10 = out (show_int (sint (m_ExecutionStart result))) (out ''"ts":'' w9);
          w11 = out ''}'' w10
      in on_stream os_flush w11)\<close>

section \<open>The scope timer: \<^verbatim>\<open>InstrumentationTimer\<close>\<close>

text \<open>
  A time point is the clock's tick count (nanoseconds) as a signed 64-bit number;
  \<^verbatim>\<open>time_point_cast<microseconds>(t).time_since_epoch().count()\<close> divides by 1000,
  truncating towards zero.
\<close>

type_synonym time_point = "64 word"

definition microseconds_count :: "time_point \<Rightarrow> 64 word" where
  "microseconds_count t = word_of_int (sint t sdiv 1000)"

record InstrumentationTimer =
  m_Stopped :: bool
  m_StartPoint :: time_point
  m_ProfileResult :: ProfileResult

text \<open>The constructor; \<open>now\<close> is what the clock reads at construction.\<close>

definition InstrumentationTimer_new :: "string \<Rightarrow> time_point \<Rightarrow> InstrumentationTimer" where
  "InstrumentationTimer_new name now =
     \<lparr>m_Stopped = False, m_StartPoint = now,
      m_ProfileResult = \<lparr>m_Name = name, m_ExecutionStart = 0, m_ExecutionEnd = 0, m_ThreadID = 0\<rparr>\<rparr>"

text \<open>
  \<^verbatim>\<open>Stop()\<close>; \<open>now\<close> is what the clock reads in the call and \<open>tid_hash\<close> the
  \<^verbatim>\<open>size_t\<close> hash of the calling thread's id, narrowed to \<^verbatim>\<open>uint32_t\<close> by the assignment.
\<close>

definition Stop :: "time_point \<Rightarrow> 64 word \<Rightarrow> InstrumentationTimer \<times> world \<Rightarrow> InstrumentationTimer \<times> world" where
  "Stop now tid_hash tw =
     (case tw of (t, w) \<Rightarrow>
        let r = (m_ProfileResult t)
                  \<lparr>m_ExecutionStart := microseconds_count (m_StartPoint t),
                   m_ExecutionEnd := microseconds_count now,
                   m_ThreadID := ucast tid_hash\<rparr>
        in (t\<lparr>m_ProfileResult := r, m_Stopped := True\<rparr>, WriteProfile r w))"

text \<open>The destructor \<^verbatim>\<open>~InstrumentationTimer()\<close>.\<close>

definition InstrumentationTimer_delete :: "time_point \<Rightarrow> 64 word \<Rightarrow> InstrumentationTimer \<times> world \<Rightarrow> InstrumentationTimer \<times> world" where
  "InstrumentationTimer_delete now tid_hash tw =
     (if \<not> m_Stopped (fst tw) then Stop now tid_hash tw else tw)"

text \<open>
  A monitored scope: \<^verbatim>\<open>PROFILE_SCOPE(name)\<close> constructs the timer at \<open>start\<close>, the body
  may call \<^verbatim>\<open>Stop()\<close> explicitly (one clock reading and thread hash per call), and the
  scope is left in one of three ways. C++ destroys an object of automatic storage
  duration on each of them, so each runs the destructor.
\<close>

datatype scope_exit = FallThrough | EarlyReturn | Thrown

fun leave_scope :: "scope_exit \<Rightarrow> time_point \<Rightarrow> 64 word \<Rightarrow> InstrumentationTimer \<times> world \<Rightarrow> InstrumentationTimer \<times> world" where
  "leave_scope FallThrough now tid_hash tw = InstrumentationTimer_delete now tid_hash tw"
| "leave_scope EarlyReturn now tid_hash tw = InstrumentationTimer_delete now tid_hash tw"
| "leave_scope Thrown now tid_hash tw = InstrumentationTimer_delete now tid_hash tw"

fun explicit_stops :: "(time_point \<times> 64 word) list \<Rightarrow> InstrumentationTimer \<times> world \<Rightarrow> InstrumentationTimer \<times> world" where
  "explicit_stops [] tw = tw"
| "explicit_stops ((now, tid_hash) # cs) tw = explicit_stops cs (Stop now tid_hash tw)"

definition profile_scope ::
  "string \<Rightarrow> time_point \<Rightarrow> (time_point \<times> 64 word) list \<Rightarrow> scope_exit \<Rightarrow> time_point \<Rightarrow> 64 word \<Rightarrow> world \<Rightarrow> InstrumentationTimer \<times> world" where
  "profile_scope name start stops how now tid_hash w =
     leave_scope how now tid_hash (explicit_stops stops (InstrumentationTimer_new name start, w))"

section \<open>Runs of the trace sink\<close>

datatype sink_op = Begin string string | End | Write ProfileResult

fun exec_op :: "world \<Rightarrow> sink_op \<Rightarrow> world" where
  "exec_op w (Begin name filePath) = BeginSession name filePath w"
| "exec_op w End = EndSession w"
| "exec_op w (Write r) = WriteProfile r w"

definition exec :: "sink_op list \<Rightarrow> world \<Rightarrow> world" where
  "exec ops w = foldl exec_op w ops"

text \<open>Two operations that differ at most in the session name passed to \<^verbatim>\<open>BeginSession\<close>.\<close>

fun same_but_name :: "sink_op \<Rightarrow> sink_op \<Rightarrow> bool" where
  "same_but_name (Begin name filePath) (Begin name' filePath') = (filePath = filePath')"
| "same_but_name End End = True"
| "same_but_name (Write r) (Write r') = (r = r')"
| "same_but_name _ _ = False"

section \<open>The JSON grammar (RFC 8259)\<close>

text \<open>
  What it means for the output document to be syntactically valid JSON is fixed by a
  recogniser for the grammar of RFC 8259, independent of the profiler: a lexer, run as a
  state machine over the characters, and a parser over its tokens with an explicit stack
  of the arrays and objects still open. A string token carries the characters between
  its quotes as they are written, a number token its digits. Characters are bytes: a byte
  from \<^verbatim>\<open>0x80\<close> on counts as part of a string's character, and whether the bytes are
  well-formed UTF-8 is not looked at.
\<close>

datatype token = LBrace | RBrace | LBrack | RBrack | Colon | Comma
  | TStr string | TNum string | TTrue | TFalse | TNull

datatype num_state = NMinus | NZero | NInt | NDot | NFrac | NE | NESign | NExp

datatype lex_mode = Start | InStr string | InEsc string | InHex nat string
  | InNum num_state string | InLit string token

definition is_ws :: "char \<Rightarrow> bool" where
  "is_ws c = (c = CHR 0x20 \<or> c = CHR 0x09 \<or> c = CHR 0x0A \<or> c = CHR 0x0D)"

definition is_digit :: "char \<Rightarrow> bool" where
  "is_digit c = (c \<in> set ''0123456789'')"

definition is_hex :: "char \<Rightarrow> bool" where
  "is_hex c = (c \<in> set ''0123456789abcdefABCDEF'')"

definition is_control :: "char \<Rightarrow> bool" where
  "is_control c = ((of_char c :: nat) < 32)"

text \<open>
  The number grammar \<^verbatim>\<open>[-] (0 | [1-9][0-9]*) [. [0-9]+] [(e|E) [+|-] [0-9]+]\<close>:
  the state reached by reading one more character, if the character continues the number.
\<close>

fun num_step :: "num_state \<Rightarrow> char \<Rightarrow> num_state option" where
  "num_step NMinus c = (if c = CHR ''0'' then Some NZero else if is_digit c then Some NInt else None)"
| "num_step NZero c =
     (if c = CHR ''.'' then Some NDot else if c = CHR ''e'' \<or> c = CHR ''E'' then Some NE else None)"
| "num_step NInt c =
     (if is_digit c then Some NInt else if c = CHR ''.'' then Some NDot
      else if c = CHR ''e'' \<or> c = CHR ''E'' then Some NE else None)"
| "num_step NDot c = (if is_digit c then Some NFrac else None)"
| "num_step NFrac c =
     (if is_digit c then Some NFrac else if c = CHR ''e'' \<or> c = CHR ''E'' then Some NE else None)"
| "num_step NE c =
     (if c = CHR ''+'' \<or> c = CHR ''-'' then Some NESign else if is_digit c then Some NExp else None)"
| "num_step NESign c = (if is_digit c then Some NExp else None)"
| "num_step NExp c = (if is_digit c then Some NExp else None)"

fun num_final :: "num_state \<Rightarrow> bool" where
  "num_final NZero = True"
| "num_final NInt = True"
| "num_final NFrac = True"
| "num_final NExp = True"
| "num_final _ = False"

text \<open>
  The characters that may follow a number in a JSON text: white space, a comma or a
  closing bracket; each with the tokens it stands for.
\<close>

definition after_number :: "char \<Rightarrow> token list option" where
  "after_number c =
     (if is_ws c then Some []
      else if c = CHR '','' then Some [Comma]
      else if c = CHR '']'' then Some [RBrack]
      else if c = CHR ''}'' then Some [RBrace]
      else None)"

fun lex :: "lex_mode \<Rightarrow> string \<Rightarrow> token list option" where
  "lex Start [] = Some []"
| "lex (InNum st acc) [] = (if num_final st then Some [TNum (rev acc)] else None)"
| "lex (InStr acc) [] = None"
| "lex (InEsc acc) [] = None"
| "lex (InHex n acc) [] = None"
| "lex (InLit es tk) [] = None"
| \<open>lex Start (c # cs) =
     (if is_ws c then lex Start cs
      else if c = CHR ''{'' then map_option (Cons LBrace) (lex Start cs)
      else if c = CHR ''}'' then map_option (Cons RBrace) (lex Start cs)
      else if c = CHR ''['' then map_option (Cons LBrack) (lex Start cs)
      else if c = CHR '']'' then map_option (Cons RBrack) (lex Start cs)
      else if c = CHR '':'' then map_option (Cons Colon) (lex Start cs)
      else if c = CHR '','' then map_option (Cons Comma) (lex Start cs)
      else if c = CHR 0x22 then lex (InStr []) cs
      else if c = CHR ''-'' then lex (InNum NMinus [c]) cs
      else if c = CHR ''0'' then lex (InNum NZero [c]) cs
      else if is_digit c then lex (InNum NInt [c]) cs
      else if c = CHR ''t'' then lex (InLit ''rue'' TTrue) cs
      else if c = CHR ''f'' then lex (InLit ''alse'' TFalse) cs
      else if c = CHR ''n'' then lex (InLit ''ull'' TNull) cs
      else None)\<close>
| \<open>lex (InStr acc) (c # cs) =
     (if c = CHR 0x22 then map_option (Cons (TStr (rev acc))) (lex Start cs)
      else if c = CHR 0x5C then lex (InEsc (c # acc)) cs
      else if is_control c then None
      else lex (InStr (c # acc)) cs)\<close>
| \<open>lex (InEsc acc) (c # cs) =
     (if c = CHR 0x22 \<or> c = CHR 0x5C \<or> c \<in> set ''/bfnrt'' then lex (InStr (c # acc)) cs
      else if c = CHR ''u'' then lex (InHex 4 (c # acc)) cs
      else None)\<close>
| "lex (InHex n acc) (c # cs) =
     (if \<not> is_hex c then None
      else if n \<le> 1 then lex (InStr (c # acc)) cs
      else lex (InHex (n - 1) (c # acc)) cs)"
| "lex (InNum st acc) (c # cs) =
     (case num_step st c of
        Some st' \<Rightarrow> lex (InNum st' (c # acc)) cs
      | None \<Rightarrow>
          if num_final st then
            (case after_number c of
               Some ts \<Rightarrow> map_option (\<lambda>r. TNum (rev acc) # ts @ r) (lex Start cs)
             | None \<Rightarrow> None)
          else None)"
| "lex (InLit es tk) (c # cs) =
     (case es of
        [] \<Rightarrow> None
      | e # es' \<Rightarrow>
          if c \<noteq> e then None
          else if es' = [] then map_option (Cons tk) (lex Start cs)
          else lex (InLit es' tk) cs)"

datatype json = JNull | JBool bool | JNum string | JStr string
  | JArr "json list" | JObj "(string \<times> json) list"

text \<open>
  The containers still open, innermost first, each with what it holds so far (latest
  first): an array, an object waiting for a key, an object whose key has been read.
\<close>

datatype frame = FArr "json list" | FObj "(string \<times> json) list" | FKey "(string \<times> json) list" string

datatype expect = EValue | EFirst | EMember | EKey | EColon | ESep | EDone json

type_synonym pstate = "expect \<times> frame list"

fun push_value :: "json \<Rightarrow> frame list \<Rightarrow> pstate option" where
  "push_value v [] = Some (EDone v, [])"
| "push_value v (FArr xs # st) = Some (ESep, FArr (v # xs) # st)"
| "push_value v (FKey ms k # st) = Some (ESep, FObj ((k, v) # ms) # st)"
| "push_value v (FObj ms # st) = None"

fun value_start :: "token \<Rightarrow> frame list \<Rightarrow> pstate option" where
  "value_start (TStr s) st = push_value (JStr s) st"
| "value_start (TNum n) st = push_value (JNum n) st"
| "value_start TTrue st = push_value (JBool True) st"
| "value_start TFalse st = push_value (JBool False) st"
| "value_start TNull st = push_value JNull st"
| "value_start LBrack st = Some (EFirst, FArr [] # st)"
| "value_start LBrace st = Some (EMember, FObj [] # st)"
| "value_start _ st = None"

fun close_arr :: "frame list \<Rightarrow> pstate option" where
  "close_arr (FArr xs # st) = push_value (JArr (rev xs)) st"
| "close_arr _ = None"

fun close_obj :: "frame list \<Rightarrow> pstate option" where
  "close_obj (FObj ms # st) = push_value (JObj (rev ms)) st"
| "close_obj _ = None"

fun read_key :: "token \<Rightarrow> frame list \<Rightarrow> pstate option" where
  "read_key (TStr k) (FObj ms # st) = Some (EColon, FKey ms k # st)"
| "read_key _ _ = None"

fun separator :: "frame list \<Rightarrow> pstate option" where
  "separator (FArr xs # st) = Some (EValue, FArr xs # st)"
| "separator (FObj ms # st) = Some (EKey, FObj ms # st)"
| "separator _ = None"

fun step :: "pstate \<Rightarrow> token \<Rightarrow> pstate option" where
  "step (EValue, st) t = value_start t st"
| "step (EFirst, st) t = (if t = RBrack then close_arr st else value_start t st)"
| "step (EMember, st) t = (if t = RBrace then close_obj st else read_key t st)"
| "step (EKey, st) t = read_key t st"
| "step (EColon, st) t = (if t = Colon then Some (EValue, st) else None)"
| "step (ESep, st) t =
     (if t = Comma then separator st
      else if t = RBrack then close_arr st
      else if t = RBrace then close_obj st
      else None)"
| "step (EDone v, st) t = None"

fun run :: "pstate \<Rightarrow> token list \<Rightarrow> json option" where
  "run (EDone v, []) [] = Some v"
| "run _ [] = None"
| "run ps (t # ts) = (case step ps t of None \<Rightarrow> None | Some ps' \<Rightarrow> run ps' ts)"

definition parse_json :: "string \<Rightarrow> json option" where
  "parse_json cs = (case lex Start cs of None \<Rightarrow> None | Some ts \<Rightarrow> run (EValue, []) ts)"

definition valid_json :: "string \<Rightarrow> bool" where
  "valid_json cs = (parse_json cs \<noteq> None)"

section \<open>The output format as the specification gives it\<close>

text \<open>
  The definitions of this section are not taken from \<^verbatim>\<open>VisualProfiler.h\<close>. They write
  down the output format of the specification (its section 6), so that what
  \<^verbatim>\<open>WriteProfile\<close> inserts into the stream can be compared with it: a string value is
  its characters between double quotes, an object is its fields \<^verbatim>\<open>"key":value\<close> separated
  by commas between braces, and the document is the header, the event objects separated
  by commas, and the footer.
\<close>

definition quoted :: "string \<Rightarrow> string" where
  "quoted s = CHR 0x22 # s @ [CHR 0x22]"

fun join_with :: "'a list \<Rightarrow> 'a list list \<Rightarrow> 'a list" where
  "join_with sep [] = []"
| "join_with sep [x] = x"
| "join_with sep (x # y # ys) = x @ sep @ join_with sep (y # ys)"

text \<open>
  The local variable \<^verbatim>\<open>name\<close> of \<^verbatim>\<open>WriteProfile\<close> after the call of \<^verbatim>\<open>std::replace\<close>: the
  label with its double quotes replaced by single quotes.
\<close>

definition emitted_name :: "ProfileResult \<Rightarrow> string" where
  "emitted_name r = std_replace (m_Name r) (CHR 0x22) (CHR 0x27)"

text \<open>
  The seven fields of an event object, in the order of the specification, each with its
  value as it is written.
\<close>

definition spec_event_fields :: "ProfileResult \<Rightarrow> (string \<times> string) list" where
  "spec_event_fields r =
     [(''cat'', quoted ''function''),
      (''dur'', show_int (sint (m_ExecutionEnd r - m_ExecutionStart r))),
      (''name'', quoted (emitted_name r)),
      (''ph'', quoted ''X''),
      (''pid'', ''0''),
      (''tid'', show_int (uint (m_ThreadID r))),
      (''ts'', show_int (sint (m_ExecutionStart r)))]"

definition spec_event_object :: "ProfileResult \<Rightarrow> string" where
  "spec_event_object r =
     ''{'' @ join_with '','' (map (\<lambda>(k, v). quoted k @ '':'' @ v) (spec_event_fields r)) @ ''}''"


definition spec_trace_document :: "ProfileResult list \<Rightarrow> string" where
  \<open>spec_trace_document rs = ''{"otherData": {},"traceEvents":['' @ join_with '','' (map spec_event_object rs) @ '']}''\<close>

subsection \<open>The tokens and the JSON value of the document\<close>

text \<open>
  What the recogniser is to find in such a text. A label is plain when it has neither a
  backslash nor a control character; after the replacement of its double quotes all its
  characters may then stand unescaped in a JSON string.
\<close>

definition plain_label :: "string \<Rightarrow> bool" where
  "plain_label s = list_all (\<lambda>c. c \<noteq> CHR 0x5C \<and> \<not> is_control c) s"

definition json_safe :: "string \<Rightarrow> bool" where
  "json_safe s = list_all (\<lambda>c. c \<noteq> CHR 0x22 \<and> c \<noteq> CHR 0x5C \<and> \<not> is_control c) s"

definition event_tokens :: "ProfileResult \<Rightarrow> token list" where
  "event_tokens r =
     [LBrace, TStr ''cat'', Colon, TStr ''function'', Comma,
      TStr ''dur'', Colon, TNum (show_int (sint (m_ExecutionEnd r - m_ExecutionStart r))), Comma,
      TStr ''name'', Colon, TStr (emitted_name r), Comma,
      TStr ''ph'', Colon, TStr ''X'', Comma,
      TStr ''pid'', Colon, TNum ''0'', Comma,
      TStr ''tid'', Colon, TNum (show_int (uint (m_ThreadID r))), Comma,
      TStr ''ts'', Colon, TNum (show_int (sint (m_ExecutionStart r))), RBrace]"

definition event_json :: "ProfileResult \<Rightarrow> json" where
  "event_json r =
     JObj [(''cat'', JStr ''function''),
           (''dur'', JNum (show_int (sint (m_ExecutionEnd r - m_ExecutionStart r)))),
           (''name'', JStr (emitted_name r)),
           (''ph'', JStr ''X''),
           (''pid'', JNum ''0''),
           (''tid'', JNum (show_int (uint (m_ThreadID r)))),
           (''ts'', JNum (show_int (sint (m_ExecutionStart r))))]"

definition document_json :: "ProfileResult list \<Rightarrow> json" where
  "document_json rs = JObj [(''otherData'', JObj []), (''traceEvents'', JArr (map event_json rs))]"

text \<open>The events after the first: each comes after a comma.\<close>

fun more_text :: "ProfileResult list \<Rightarrow> string" where
  "more_text [] = []"
| "more_text (r # rs) = CHR '','' # spec_event_object r @ more_text rs"

fun more_tokens :: "ProfileResult list \<Rightarrow> token list" where
  "more_tokens [] = []"
| "more_tokens (r # rs) = Comma # event_tokens r @ more_tokens rs"

section \<open>Files, invariants and concrete environments\<close>

text \<open>What a file holds (a file that does not exist holds nothing), and appending to it.\<close>

definition content :: "filesystem \<Rightarrow> string \<Rightarrow> string" where
  "content f p = (case f p of None \<Rightarrow> [] | Some cs \<Rightarrow> cs)"

definition append_file :: "string \<Rightarrow> string \<Rightarrow> world \<Rightarrow> world" where
  "append_file p cs w = w\<lparr>files := (files w)(p \<mapsto> content (files w) p @ cs)\<rparr>"

text \<open>
  An invariant of the sink: while no session is active, the stream has no file open.
\<close>

definition idle_closed :: "world \<Rightarrow> bool" where
  "idle_closed w = (m_IsSessionActive (sink w) \<or> os_path (m_OutputStream (sink w)) = None)"

text \<open>The same world with another session name stored in the sink.\<close>

definition with_name :: "string \<Rightarrow> world \<Rightarrow> world" where
  "with_name n w = w\<lparr>sink := (sink w)\<lparr>m_SessionName := n\<rparr>\<rparr>"

text \<open>
  Environments for concrete runs: every path can be opened, or none; no file exists yet.
\<close>

definition every_path :: "string \<Rightarrow> bool" where
  "every_path p = True"

definition no_path :: "string \<Rightarrow> bool" where
  "no_path p = False"

definition no_files :: filesystem where
  "no_files p = None"

section \<open>Decimal numbers and strings under the lexer\<close>

lemma digit_char_is_digit: "d < 10 \<Longrightarrow> is_digit (digit_char d)"
proof -
  assume "d < 10"
  then have "d \<in> {0,1,2,3,4,5,6,7,8,9}" by auto
  then show ?thesis by (auto simp: digit_char_def is_digit_def)
qed

lemma digit_char_zero: "d < 10 \<Longrightarrow> digit_char d = CHR ''0'' \<longleftrightarrow> d = 0"
proof -
  assume "d < 10"
  then have "d \<in> {0,1,2,3,4,5,6,7,8,9}" by auto
  then show ?thesis by (auto simp: digit_char_def)
qed

lemma show_nat_shape:
  "\<exists>d ds. show_nat n = d # ds \<and> is_digit d \<and> list_all is_digit ds \<and> (d = CHR ''0'' \<longrightarrow> n = 0 \<and> ds = [])"
proof (induction n rule: show_nat.induct)
  case (1 n)
  show ?case
  proof (cases "n < 10")
    case True
    then show ?thesis by (simp add: show_nat.simps [of n] digit_char_is_digit digit_char_zero)
  next
    case False
    then have pos: "n div 10 \<noteq> 0" by simp
    from 1 False obtain d ds where
      h: "show_nat (n div 10) = d # ds" "is_digit d" "list_all is_digit ds"
         "d = CHR ''0'' \<longrightarrow> n div 10 = 0 \<and> ds = []"
      by blast
    from h pos have "d \<noteq> CHR ''0''" by blast
    with h False show ?thesis
      by (simp add: show_nat.simps [of n] digit_char_is_digit)
  qed
qed

lemma is_digit_cases:
  "is_digit c \<Longrightarrow> \<not> is_ws c \<and> c \<noteq> CHR ''{'' \<and> c \<noteq> CHR ''}'' \<and> c \<noteq> CHR ''['' \<and> c \<noteq> CHR '']''
     \<and> c \<noteq> CHR '':'' \<and> c \<noteq> CHR '','' \<and> c \<noteq> CHR 0x22 \<and> c \<noteq> CHR ''-''"
  by (auto simp: is_digit_def is_ws_def)

lemma after_number_stops:
  "after_number c = Some ts \<Longrightarrow> num_step NInt c = None \<and> num_step NZero c = None"
  by (auto simp: after_number_def is_ws_def is_digit_def split: if_splits)

lemma lex_digits:
  "list_all is_digit ds \<Longrightarrow> after_number c = Some ts \<Longrightarrow>
   lex (InNum NInt acc) (ds @ c # rest) = map_option (\<lambda>r. TNum (rev acc @ ds) # ts @ r) (lex Start rest)"
proof (induction ds arbitrary: acc)
  case Nil
  then show ?case using after_number_stops [of c ts] by simp
next
  case (Cons d ds)
  then show ?case by simp
qed

lemma lex_show_nat:
  assumes "after_number c = Some ts"
  shows "lex Start (show_nat n @ c # rest) = map_option (\<lambda>r. TNum (show_nat n) # ts @ r) (lex Start rest)"
proof -
  obtain d ds where h: "show_nat n = d # ds" "is_digit d" "list_all is_digit ds"
      "d = CHR ''0'' \<longrightarrow> n = 0 \<and> ds = []"
    using show_nat_shape by blast
  show ?thesis
  proof (cases "d = CHR ''0''")
    case True
    with h assms show ?thesis
      using after_number_stops [of c ts] by (simp add: is_ws_def)
  next
    case False
    with h assms show ?thesis
      using is_digit_cases [of d] lex_digits [of ds c ts "[d]" rest] by simp
  qed
qed

lemma lex_show_neg:
  assumes "after_number c = Some ts" "0 < n"
  shows "lex Start (CHR ''-'' # show_nat n @ c # rest)
         = map_option (\<lambda>r. TNum (CHR ''-'' # show_nat n) # ts @ r) (lex Start rest)"
proof -
  obtain d ds where h: "show_nat n = d # ds" "is_digit d" "list_all is_digit ds"
      "d = CHR ''0'' \<longrightarrow> n = 0 \<and> ds = []"
    using show_nat_shape by blast
  with assms have "d \<noteq> CHR ''0''" by auto
  with h assms show ?thesis
    using lex_digits [of ds c ts "[d, CHR ''-'']" rest] by (simp add: is_ws_def)
qed

lemma lex_show_int:
  assumes "after_number c = Some ts"
  shows "lex Start (show_int i @ c # rest) = map_option (\<lambda>r. TNum (show_int i) # ts @ r) (lex Start rest)"
proof (cases "i < 0")
  case True
  then show ?thesis using lex_show_neg [OF assms, of "nat (- i)" rest] by (simp add: show_int_def)
next
  case False
  then show ?thesis using lex_show_nat [OF assms, of "nat i" rest] by (simp add: show_int_def)
qed

lemma lex_show_int_comma:
  "lex Start (show_int i @ CHR '','' # rest) = map_option (\<lambda>r. TNum (show_int i) # Comma # r) (lex Start rest)"
  using lex_show_int [of "CHR '',''" "[Comma]" i rest] by (simp add: after_number_def is_ws_def)

lemma lex_show_int_brace:
  "lex Start (show_int i @ CHR ''}'' # rest) = map_option (\<lambda>r. TNum (show_int i) # RBrace # r) (lex Start rest)"
  using lex_show_int [of "CHR ''}''" "[RBrace]" i rest] by (simp add: after_number_def is_ws_def)

lemma lex_string:
  "json_safe s \<Longrightarrow>
   lex (InStr acc) (s @ CHR 0x22 # rest) = map_option (Cons (TStr (rev acc @ s))) (lex Start rest)"
  by (induction s arbitrary: acc) (simp_all add: json_safe_def)

section \<open>The net effect of the stream operations\<close>

lemma show_nat_nonempty: "show_nat n \<noteq> []"
  using show_nat_shape [of n] by auto

lemma out_failed: "os_failed (m_OutputStream (sink w)) \<Longrightarrow> out cs w = w"
  by (simp add: out_def on_stream_def os_put_def)

lemma out_open:
  "os_path (m_OutputStream (sink w)) = Some p \<Longrightarrow> \<not> os_failed (m_OutputStream (sink w)) \<Longrightarrow> cs \<noteq> [] \<Longrightarrow>
   out cs w = w\<lparr>files := (files w)(p \<mapsto> content (files w) p @ cs)\<rparr>"
  by (simp add: out_def on_stream_def os_put_def content_def)

lemma out_open_empty: "out [] w = w"
  by (simp add: out_def on_stream_def os_put_def)

lemma out_closed:
  "os_path (m_OutputStream (sink w)) = None \<Longrightarrow> cs \<noteq> [] \<Longrightarrow>
   out cs w = w\<lparr>sink := (sink w)\<lparr>m_OutputStream := (m_OutputStream (sink w))\<lparr>os_failed := True\<rparr>\<rparr>\<rparr>"
  by (cases "os_failed (m_OutputStream (sink w))") (simp_all add: out_def on_stream_def os_put_def)

lemma flush_id: "on_stream os_flush w = w"
  by (simp add: on_stream_def os_flush_def)

lemma append_file_sink [simp]: "sink (append_file p cs w) = sink w"
  by (simp add: append_file_def)

lemma append_file_twice [simp]: "append_file p b (append_file p a w) = append_file p (a @ b) w"
  by (simp add: append_file_def content_def)

lemma out_append:
  "os_path (m_OutputStream (sink w)) = Some p \<Longrightarrow> \<not> os_failed (m_OutputStream (sink w)) \<Longrightarrow> cs \<noteq> [] \<Longrightarrow>
   out cs w = append_file p cs w"
  by (simp add: out_open append_file_def)

lemma out_append_again:
  assumes "os_path (m_OutputStream (sink w)) = Some p" "\<not> os_failed (m_OutputStream (sink w))"
  shows "out cs (append_file p a w) = append_file p (a @ cs) w"
proof (cases "cs = []")
  case True
  then show ?thesis by (simp add: out_open_empty)
next
  case False
  with assms have "out cs (append_file p a w) = append_file p cs (append_file p a w)"
    by (intro out_append) simp_all
  then show ?thesis by simp
qed

lemma event_object_unfold:
  \<open>spec_event_object r =
     ''{'' @ ''"cat":"function",'' @ ''"dur":'' @ show_int (sint (m_ExecutionEnd r - m_ExecutionStart r)) @ '',''
     @ ''"name":"'' @ emitted_name r @ ''",'' @ ''"ph":"X",'' @ ''"pid":0,''
     @ ''"tid":'' @ show_int (uint (m_ThreadID r)) @ '','' @ ''"ts":'' @ show_int (sint (m_ExecutionStart r)) @ ''}''\<close>
  by (simp add: spec_event_object_def spec_event_fields_def quoted_def)

lemma WriteProfile_open_aux:
  assumes "os_path (m_OutputStream (sink w)) = Some p" "\<not> os_failed (m_OutputStream (sink w))"
  shows "WriteProfile r w =
         append_file p ((if 0 <s m_ProfileCount (sink w) then '','' else []) @ spec_event_object r)
           (w\<lparr>sink := (sink w)\<lparr>m_ProfileCount := m_ProfileCount (sink w) + 1\<rparr>\<rparr>)"
proof -
  define w1 where "w1 = w\<lparr>sink := (sink w)\<lparr>m_ProfileCount := m_ProfileCount (sink w) + 1\<rparr>\<rparr>"
  have o: "os_path (m_OutputStream (sink w1)) = Some p" "\<not> os_failed (m_OutputStream (sink w1))"
    using assms by (simp_all add: w1_def)
  define sep :: string where "sep = (if 0 <s m_ProfileCount (sink w) then '','' else [])"
  have s2: "out ''{'' (if 0 <s m_ProfileCount (sink w) then out '','' w1 else w1) = append_file p (sep @ ''{'') w1"
  proof (cases "0 <s m_ProfileCount (sink w)")
    case True
    then show ?thesis using o by (simp add: sep_def out_append out_append_again)
  next
    case False
    then show ?thesis using o by (simp add: sep_def out_append)
  qed
  have "WriteProfile r w = append_file p (sep @ spec_event_object r) w1"
    unfolding WriteProfile_def Let_def w1_def [symmetric] s2 flush_id emitted_name_def [symmetric]
    using o by (simp add: out_append_again event_object_unfold)
  then show ?thesis by (simp add: sep_def w1_def)
qed

lemma WriteProfile_closed:
  assumes "os_path (m_OutputStream (sink w)) = None"
  shows "WriteProfile r w =
         w\<lparr>sink := (sink w)\<lparr>m_ProfileCount := m_ProfileCount (sink w) + 1,
              m_OutputStream := \<lparr>os_path = None, os_failed = True\<rparr>\<rparr>\<rparr>"
proof -
  define w1 where "w1 = w\<lparr>sink := (sink w)\<lparr>m_ProfileCount := m_ProfileCount (sink w) + 1\<rparr>\<rparr>"
  define wf where "wf = w1\<lparr>sink := (sink w1)\<lparr>m_OutputStream := \<lparr>os_path = None, os_failed = True\<rparr>\<rparr>\<rparr>"
  have c: "os_path (m_OutputStream (sink w1)) = None" using assms by (simp add: w1_def)
  have f: "os_failed (m_OutputStream (sink wf))" by (simp add: wf_def)
  have one: "out ''{'' w1 = wf"
    using c by (simp add: out_closed wf_def)
  have two: "out ''{'' (out '','' w1) = wf"
  proof -
    have "out '','' w1 = wf"
      using c by (simp add: out_closed wf_def)
    then show ?thesis using f by (simp add: out_failed)
  qed
  have s2: "out ''{'' (if 0 <s m_ProfileCount (sink w) then out '','' w1 else w1) = wf"
    using one two by simp
  have "WriteProfile r w = wf"
    unfolding WriteProfile_def Let_def w1_def [symmetric] s2 flush_id
    using f by (simp add: out_failed)
  then show ?thesis by (simp add: wf_def w1_def)
qed

section \<open>Event objects and documents under the recogniser\<close>

lemma lex_string_start:
  "json_safe s \<Longrightarrow>
   lex (InStr []) (s @ CHR 0x22 # rest) = map_option (Cons (TStr s)) (lex Start rest)"
  using lex_string [of s "[]" rest] by simp

lemma lex_event:
  assumes "json_safe (emitted_name r)"
  shows "lex Start (spec_event_object r @ rest) = map_option ((@) (event_tokens r)) (lex Start rest)"
proof (cases "lex Start rest")
  case None
  with assms show ?thesis
    by (simp add: event_object_unfold lex_show_int_comma lex_show_int_brace lex_string_start
        is_ws_def is_control_def after_number_def)
next
  case (Some ts)
  with assms show ?thesis
    by (simp add: event_object_unfold lex_show_int_comma lex_show_int_brace lex_string_start
        is_ws_def is_control_def after_number_def event_tokens_def)
qed

lemma run_event:
  "run (ESep, FArr (event_json r # xs) # st) ts = res \<Longrightarrow>
   run (EValue, FArr xs # st) (event_tokens r @ ts) = res"
  by (simp add: event_tokens_def event_json_def)

lemma run_event_first:
  "run (ESep, FArr [event_json r] # st) ts = res \<Longrightarrow>
   run (EFirst, FArr [] # st) (event_tokens r @ ts) = res"
  by (simp add: event_tokens_def event_json_def)

lemma join_with_Cons: "join_with sep (x # xs) = x @ concat (map ((@) sep) xs)"
  by (induction sep "x # xs" arbitrary: x xs rule: join_with.induct) simp_all

lemma join_with_snoc: "join_with sep (xs @ [x]) = join_with sep xs @ (if xs = [] then [] else sep) @ x"
proof (cases xs)
  case Nil
  then show ?thesis by simp
next
  case (Cons y ys)
  then show ?thesis by (simp add: join_with_Cons)
qed

lemma join_text: "join_with '','' (map spec_event_object (r # rs)) = spec_event_object r @ more_text rs"
  by (induction rs arbitrary: r) simp_all

lemma std_replace_map: "std_replace cs old new = map (\<lambda>c. if c = old then new else c) cs"
  by (induction cs) simp_all

lemma replaced_char_safe:
  "c \<noteq> CHR 0x5C \<Longrightarrow> \<not> is_control c \<Longrightarrow>
   (if c = CHR 0x22 then CHR 0x27 else c) \<noteq> CHR 0x22
   \<and> (if c = CHR 0x22 then CHR 0x27 else c) \<noteq> CHR 0x5C
   \<and> \<not> is_control (if c = CHR 0x22 then CHR 0x27 else c)"
  by (cases "c = CHR 0x22") (simp_all add: is_control_def)

lemma plain_replace_safe: "plain_label cs \<Longrightarrow> json_safe (std_replace cs (CHR 0x22) (CHR 0x27))"
proof (induction cs)
  case Nil
  show ?case by (simp add: json_safe_def)
next
  case (Cons c cs)
  then have c: "c \<noteq> CHR 0x5C" "\<not> is_control c" and rest: "plain_label cs"
    by (simp_all add: plain_label_def)
  from Cons.IH [OF rest] replaced_char_safe [OF c] show ?case
    by (simp add: json_safe_def)
qed

lemma plain_label_safe: "plain_label (m_Name r) \<Longrightarrow> json_safe (emitted_name r)"
  by (simp add: emitted_name_def plain_replace_safe)

lemma lex_more_events:
  "list_all (\<lambda>r. json_safe (emitted_name r)) rs \<Longrightarrow>
   lex Start (more_text rs @ rest) = map_option ((@) (more_tokens rs)) (lex Start rest)"
proof (induction rs)
  case Nil
  show ?case by (cases "lex Start rest") simp_all
next
  case (Cons r rs)
  then have "lex Start (more_text (r # rs) @ rest)
      = map_option (Cons Comma) (lex Start (spec_event_object r @ more_text rs @ rest))"
    by (simp add: is_ws_def)
  also have "\<dots> = map_option (Cons Comma) (map_option ((@) (event_tokens r)) (lex Start (more_text rs @ rest)))"
    using Cons.prems by (simp add: lex_event)
  also have "\<dots> = map_option ((@) (more_tokens (r # rs))) (lex Start rest)"
    using Cons by (cases "lex Start rest") simp_all
  finally show ?case .
qed

lemma lex_events:
  assumes "list_all (\<lambda>r. json_safe (emitted_name r)) rs"
  shows "lex Start (join_with '','' (map spec_event_object rs) @ rest)
         = map_option ((@) (case rs of [] \<Rightarrow> [] | r # rs' \<Rightarrow> event_tokens r @ more_tokens rs')) (lex Start rest)"
proof (cases rs)
  case Nil
  show ?thesis by (cases "lex Start rest") (simp_all add: Nil)
next
  case (Cons r rs')
  with assms have s: "json_safe (emitted_name r)" "list_all (\<lambda>r. json_safe (emitted_name r)) rs'"
    by simp_all
  have "lex Start (join_with '','' (map spec_event_object rs) @ rest)
        = lex Start (spec_event_object r @ more_text rs' @ rest)"
    unfolding Cons join_text by simp
  also have "\<dots> = map_option ((@) (event_tokens r)) (lex Start (more_text rs' @ rest))"
    using s(1) by (rule lex_event)
  also have "\<dots> = map_option ((@) (event_tokens r)) (map_option ((@) (more_tokens rs')) (lex Start rest))"
    using s(2) by (simp only: lex_more_events)
  also have "\<dots> = map_option ((@) (event_tokens r @ more_tokens rs')) (lex Start rest)"
    by (cases "lex Start rest") simp_all
  finally show ?thesis by (simp add: Cons)
qed

lemma run_more_events:
  "run (ESep, FArr acc # st) (more_tokens rs @ RBrack # ts)
   = (case push_value (JArr (rev acc @ map event_json rs)) st of None \<Rightarrow> None | Some ps \<Rightarrow> run ps ts)"
proof (induction rs arbitrary: acc)
  case Nil
  show ?case by simp
next
  case (Cons r rs)
  have "run (ESep, FArr acc # st) (more_tokens (r # rs) @ RBrack # ts)
        = run (EValue, FArr acc # st) (event_tokens r @ more_tokens rs @ RBrack # ts)"
    by simp
  also have "\<dots> = run (ESep, FArr (event_json r # acc) # st) (more_tokens rs @ RBrack # ts)"
    by (rule run_event) simp
  also have "\<dots> = (case push_value (JArr (rev (event_json r # acc) @ map event_json rs)) st of None \<Rightarrow> None | Some ps \<Rightarrow> run ps ts)"
    by (rule Cons.IH)
  finally show ?case by simp
qed

lemma run_events:
  "run (EFirst, FArr [] # st) ((case rs of [] \<Rightarrow> [] | r # rs' \<Rightarrow> event_tokens r @ more_tokens rs') @ RBrack # ts)
   = (case push_value (JArr (map event_json rs)) st of None \<Rightarrow> None | Some ps \<Rightarrow> run ps ts)"
proof (cases rs)
  case Nil
  then show ?thesis by simp
next
  case (Cons r rs')
  have "run (EFirst, FArr [] # st) (event_tokens r @ more_tokens rs' @ RBrack # ts)
        = run (ESep, FArr [event_json r] # st) (more_tokens rs' @ RBrack # ts)"
    by (rule run_event_first) simp
  then show ?thesis
    by (simp add: Cons run_more_events)
qed

lemma parse_trace_document:
  assumes "list_all (\<lambda>r. json_safe (emitted_name r)) rs"
  shows "parse_json (spec_trace_document rs) = Some (document_json rs)"
proof -
  define body where "body = (case rs of [] \<Rightarrow> [] | r # rs' \<Rightarrow> event_tokens r @ more_tokens rs')"
  have tail: "lex Start '']}'' = Some [RBrack, RBrace]"
    by (simp add: is_ws_def)
  have mid: "lex Start (join_with '','' (map spec_event_object rs) @ '']}'') = Some (body @ [RBrack, RBrace])"
    unfolding lex_events [OF assms] tail body_def by simp
  have l: "lex Start (spec_trace_document rs)
        = Some ([LBrace, TStr ''otherData'', Colon, LBrace, RBrace, Comma, TStr ''traceEvents'', Colon, LBrack]
               @ body @ [RBrack, RBrace])"
    unfolding spec_trace_document_def by (simp add: is_ws_def is_control_def mid)
  have r: "run (EValue, []) ([LBrace, TStr ''otherData'', Colon, LBrace, RBrace, Comma, TStr ''traceEvents'', Colon, LBrack]
               @ body @ [RBrack, RBrace]) = Some (document_json rs)"
    unfolding body_def by (simp add: run_events document_json_def)
  show ?thesis unfolding parse_json_def l using r by simp
qed

section \<open>Sessions\<close>

lemma EndSession_inactive: "\<not> m_IsSessionActive (sink w) \<Longrightarrow> EndSession w = w"
  by (simp add: EndSession_def)

lemma EndSession_open:
  assumes "m_IsSessionActive (sink w)" "os_path (m_OutputStream (sink w)) = Some p"
    "\<not> os_failed (m_OutputStream (sink w))"
  shows "EndSession w =
         w\<lparr>sink := (sink w)\<lparr>m_IsSessionActive := False,
                m_OutputStream := \<lparr>os_path = None, os_failed = False\<rparr>, m_ProfileCount := 0\<rparr>,
           files := (files w)(p \<mapsto> content (files w) p @ '']}'')\<rparr>"
  using assms
  by (simp add: EndSession_def Let_def WriteFooter_def out_def on_stream_def os_put_def os_flush_def
      os_close_def content_def)

lemma EndSession_sink:
  assumes "m_IsSessionActive (sink w)"
  shows "os_path (m_OutputStream (sink (EndSession w))) = None"
    and "\<not> m_IsSessionActive (sink (EndSession w))"
    and "m_ProfileCount (sink (EndSession w)) = 0"
    and "m_SessionName (sink (EndSession w)) = m_SessionName (sink w)"
    and "openable (EndSession w) = openable w"
  using assms
  by (simp_all add: EndSession_def Let_def WriteFooter_def out_def on_stream_def os_put_def os_flush_def
      os_close_def split: option.splits prod.splits)

lemma EndSession_files_failed:
  "os_failed (m_OutputStream (sink w)) \<Longrightarrow> files (EndSession w) = files w"
  by (simp add: EndSession_def Let_def WriteFooter_def out_def on_stream_def os_put_def os_flush_def
      os_close_def split: option.splits prod.splits)

lemma BeginSession_ends_first: "BeginSession name q w = BeginSession name q (EndSession w)"
proof (cases "m_IsSessionActive (sink w)")
  case True
  then have "\<not> m_IsSessionActive (sink (EndSession w))" by (rule EndSession_sink)
  with True show ?thesis by (simp add: BeginSession_def)
next
  case False
  then show ?thesis by (simp add: EndSession_inactive)
qed

lemma BeginSession_idle_ok:
  assumes "\<not> m_IsSessionActive (sink w)" "os_path (m_OutputStream (sink w)) = None" "openable w q"
  shows \<open>BeginSession name q w =
         w\<lparr>sink := \<lparr>m_SessionName = name, m_OutputStream = \<lparr>os_path = Some q, os_failed = False\<rparr>,
                    m_ProfileCount = m_ProfileCount (sink w), m_IsSessionActive = True\<rparr>,
           files := (files w)(q \<mapsto> ''{"otherData": {},"traceEvents":['')\<rparr>\<close>
  using assms
  by (simp add: BeginSession_def Let_def WriteHeader_def out_def on_stream_def os_put_def os_flush_def
      os_open_def)

lemma BeginSession_idle_fail:
  assumes "\<not> m_IsSessionActive (sink w)" "\<not> openable w q"
  shows "BeginSession name q w =
         w\<lparr>sink := (sink w)\<lparr>m_SessionName := name,
                    m_OutputStream := (m_OutputStream (sink w))\<lparr>os_failed := True\<rparr>,
                    m_IsSessionActive := True\<rparr>\<rparr>"
  using assms
  by (simp add: BeginSession_def Let_def WriteHeader_def out_def on_stream_def os_put_def os_flush_def
      os_open_def)

text \<open>
  The event counter is a 32-bit \<^verbatim>\<open>int\<close>: below \<open>2 ^ 31\<close> it counts the calls of
  \<^verbatim>\<open>WriteProfile\<close>, and is positive from the second call on.
\<close>

lemma sint_count: "n < 2 ^ 31 \<Longrightarrow> sint (of_nat n :: 32 word) = int n"
proof -
  assume a: "n < 2 ^ 31"
  have "sint (of_nat n :: 32 word) = signed_take_bit 31 (int n)"
    by (simp add: signed_of_nat)
  also have "\<dots> = int n"
    using a by (intro signed_take_bit_int_eq_self) simp_all
  finally show ?thesis .
qed

lemma count_positive: "n < 2 ^ 31 \<Longrightarrow> (0 <s (of_nat n :: 32 word)) = (0 < n)"
  by (simp add: word_sless_alt sint_count)

lemma sint_difference:
  fixes a b :: "64 word"
  assumes "- (2 ^ 63) \<le> sint a - sint b" "sint a - sint b < 2 ^ 63"
  shows "sint (a - b) = sint a - sint b"
proof -
  have "a - b = word_of_int (sint a - sint b)" by simp
  then have "sint (a - b) = sint (word_of_int (sint a - sint b) :: 64 word)" by simp
  also have "\<dots> = signed_take_bit 63 (sint a - sint b)" unfolding signed_of_int by simp
  also have "\<dots> = sint a - sint b" using assms by (intro signed_take_bit_int_eq_self) simp_all
  finally show ?thesis .
qed

lemma exec_append: "exec (xs @ ys) w = exec ys (exec xs w)"
  by (simp add: exec_def)

lemma exec_Cons: "exec (x # xs) w = exec xs (exec_op w x)"
  by (simp add: exec_def)

lemma exec_Nil: "exec [] w = w"
  by (simp add: exec_def)

lemma writes_open:
  assumes "os_path (m_OutputStream (sink w)) = Some p" "\<not> os_failed (m_OutputStream (sink w))"
    "m_ProfileCount (sink w) = 0" "files w p = Some old"
  shows "length rs < 2 ^ 31 \<Longrightarrow>
         exec (map Write rs) w =
         w\<lparr>sink := (sink w)\<lparr>m_ProfileCount := of_nat (length rs)\<rparr>,
           files := (files w)(p \<mapsto> old @ join_with '','' (map spec_event_object rs))\<rparr>"
proof (induction rs rule: rev_induct)
  case Nil
  have "(files w)(p \<mapsto> old) = files w" using assms(4) by (rule map_upd_triv)
  moreover have "(sink w)\<lparr>m_ProfileCount := 0\<rparr> = sink w" using assms(3) by (cases "sink w") simp
  ultimately show ?case by (simp add: exec_Nil)
next
  case (snoc r rs)
  define v where "v = w\<lparr>sink := (sink w)\<lparr>m_ProfileCount := of_nat (length rs)\<rparr>,
           files := (files w)(p \<mapsto> old @ join_with '','' (map spec_event_object rs))\<rparr>"
  from snoc have len: "length rs < 2 ^ 31" by simp
  have ih: "exec (map Write rs) w = v" unfolding v_def using len by (rule snoc.IH)
  have o: "os_path (m_OutputStream (sink v)) = Some p" "\<not> os_failed (m_OutputStream (sink v))"
    using assms by (simp_all add: v_def)
  have "exec (map Write (rs @ [r])) w = WriteProfile r v"
    by (simp add: exec_append ih exec_Cons exec_Nil)
  also have "\<dots> = append_file p ((if 0 <s m_ProfileCount (sink v) then '','' else []) @ spec_event_object r)
           (v\<lparr>sink := (sink v)\<lparr>m_ProfileCount := m_ProfileCount (sink v) + 1\<rparr>\<rparr>)"
    using o by (rule WriteProfile_open_aux)
  also have "\<dots> = w\<lparr>sink := (sink w)\<lparr>m_ProfileCount := of_nat (length (rs @ [r]))\<rparr>,
           files := (files w)(p \<mapsto> old @ join_with '','' (map spec_event_object (rs @ [r])))\<rparr>"
    using len by (simp add: v_def append_file_def content_def count_positive join_with_snoc)
  finally show ?case .
qed

section \<open>Invariants of the sink\<close>

lemma out_keeps:
  "m_IsSessionActive (sink (out cs w)) = m_IsSessionActive (sink w)"
  "os_path (m_OutputStream (sink (out cs w))) = os_path (m_OutputStream (sink w))"
  "m_SessionName (sink (out cs w)) = m_SessionName (sink w)"
  "m_ProfileCount (sink (out cs w)) = m_ProfileCount (sink w)"
  "openable (out cs w) = openable w"
  by (simp_all add: out_def on_stream_def os_put_def split: option.splits)

lemma WriteProfile_keeps:
  "m_IsSessionActive (sink (WriteProfile r w)) = m_IsSessionActive (sink w)"
  "os_path (m_OutputStream (sink (WriteProfile r w))) = os_path (m_OutputStream (sink w))"
  "m_SessionName (sink (WriteProfile r w)) = m_SessionName (sink w)"
  "m_ProfileCount (sink (WriteProfile r w)) = m_ProfileCount (sink w) + 1"
  "openable (WriteProfile r w) = openable w"
  by (simp_all add: WriteProfile_def Let_def flush_id out_keeps)

lemma WriteProfile_failed:
  assumes "os_failed (m_OutputStream (sink w))"
  shows "WriteProfile r w = w\<lparr>sink := (sink w)\<lparr>m_ProfileCount := m_ProfileCount (sink w) + 1\<rparr>\<rparr>"
proof -
  define w1 where "w1 = w\<lparr>sink := (sink w)\<lparr>m_ProfileCount := m_ProfileCount (sink w) + 1\<rparr>\<rparr>"
  have f: "os_failed (m_OutputStream (sink w1))" using assms by (simp add: w1_def)
  have "WriteProfile r w = w1"
    unfolding WriteProfile_def Let_def w1_def [symmetric] flush_id
    using f by (simp add: out_failed)
  then show ?thesis by (simp add: w1_def)
qed

lemma writes_failed:
  "os_failed (m_OutputStream (sink w)) \<Longrightarrow>
   files (exec (map Write rs) w) = files w \<and> os_failed (m_OutputStream (sink (exec (map Write rs) w)))
   \<and> m_IsSessionActive (sink (exec (map Write rs) w)) = m_IsSessionActive (sink w)"
proof (induction rs arbitrary: w)
  case Nil
  then show ?case by (simp add: exec_Nil)
next
  case (Cons r rs)
  define v where "v = WriteProfile r w"
  have v: "v = w\<lparr>sink := (sink w)\<lparr>m_ProfileCount := m_ProfileCount (sink w) + 1\<rparr>\<rparr>"
    unfolding v_def using Cons.prems by (rule WriteProfile_failed)
  then have "os_failed (m_OutputStream (sink v))" using Cons.prems by simp
  from Cons.IH [OF this] show ?case
    by (simp add: exec_Cons v_def [symmetric]) (simp add: v)
qed

lemma BeginSession_active: "m_IsSessionActive (sink (BeginSession name q w))"
  by (simp add: BeginSession_def Let_def WriteHeader_def flush_id out_keeps on_stream_def split: prod.splits)

lemma BeginSession_openable: "openable (BeginSession name q w) = openable w"
proof (cases "m_IsSessionActive (sink w)")
  case True
  then have "openable (EndSession w) = openable w" by (rule EndSession_sink)
  with True show ?thesis
    by (simp add: BeginSession_def Let_def WriteHeader_def flush_id out_keeps on_stream_def split: prod.splits)
next
  case False
  then show ?thesis
    by (simp add: BeginSession_def Let_def WriteHeader_def flush_id out_keeps on_stream_def split: prod.splits)
qed

lemma EndSession_openable: "openable (EndSession w) = openable w"
  by (cases "m_IsSessionActive (sink w)") (simp_all add: EndSession_sink EndSession_inactive)

lemma EndSession_idle: "\<not> m_IsSessionActive (sink (EndSession w))"
  by (cases "m_IsSessionActive (sink w)") (simp_all add: EndSession_sink EndSession_inactive)

lemma exec_op_invariant:
  "idle_closed w \<Longrightarrow> idle_closed (exec_op w x)"
proof (cases x)
  case (Begin name q)
  then show ?thesis by (simp add: idle_closed_def BeginSession_active)
next
  case End
  assume "idle_closed w"
  then show ?thesis
    by (cases "m_IsSessionActive (sink w)") (simp_all add: End idle_closed_def EndSession_sink EndSession_inactive)
next
  case (Write r)
  assume "idle_closed w"
  then show ?thesis by (simp add: Write idle_closed_def WriteProfile_keeps)
qed

lemma exec_op_openable: "openable (exec_op w x) = openable w"
  by (cases x) (simp_all add: BeginSession_openable EndSession_openable WriteProfile_keeps)

lemma exec_invariant: "idle_closed w \<Longrightarrow> idle_closed (exec ops w)"
  by (induction ops arbitrary: w) (simp_all add: exec_Nil exec_Cons exec_op_invariant)

lemma exec_openable: "openable (exec ops w) = openable w"
  by (induction ops arbitrary: w) (simp_all add: exec_Nil exec_Cons exec_op_openable)

lemma initial_invariant: "idle_closed (initial ok f)"
  by (simp add: idle_closed_def initial_def)

lemma reachable_invariant: "idle_closed (exec ops (initial ok f))"
  by (simp add: exec_invariant initial_invariant)

lemma reachable_openable: "openable (exec ops (initial ok f)) = ok"
  by (simp add: exec_openable initial_def)

lemma BeginSession_opened:
  assumes "idle_closed w" "openable w q" "m_IsSessionActive (sink w) \<or> m_ProfileCount (sink w) = 0"
  shows \<open>BeginSession name q w =
         (EndSession w)\<lparr>sink := \<lparr>m_SessionName = name, m_OutputStream = \<lparr>os_path = Some q, os_failed = False\<rparr>,
                    m_ProfileCount = 0, m_IsSessionActive = True\<rparr>,
           files := (files (EndSession w))(q \<mapsto> ''{"otherData": {},"traceEvents":['')\<rparr>\<close>
proof -
  define v where "v = EndSession w"
  have idle: "\<not> m_IsSessionActive (sink v)" unfolding v_def by (rule EndSession_idle)
  have closed: "os_path (m_OutputStream (sink v)) = None"
    using assms(1) by (cases "m_IsSessionActive (sink w)") (simp_all add: v_def EndSession_sink EndSession_inactive idle_closed_def)
  have count: "m_ProfileCount (sink v) = 0"
    using assms(3) by (cases "m_IsSessionActive (sink w)") (simp_all add: v_def EndSession_sink EndSession_inactive)
  have ok: "openable v q" using assms(2) by (simp add: v_def EndSession_openable)
  have "BeginSession name q w = BeginSession name q v" unfolding v_def by (rule BeginSession_ends_first)
  also note BeginSession_idle_ok [OF idle closed ok]
  finally show ?thesis unfolding count unfolding v_def .
qed

section \<open>The document of a session\<close>

lemma session_file:
  assumes inv: "idle_closed w"
    and fresh: "m_IsSessionActive (sink w) \<or> m_ProfileCount (sink w) = 0"
    and opens: "openable w p"
    and bound: "length rs < 2 ^ 31"
  shows "files (exec (Begin name p # map Write rs @ [End]) w) p = Some (spec_trace_document rs)"
proof -
  define wb where "wb = BeginSession name p w"
  have wb: \<open>wb = (EndSession w)\<lparr>sink := \<lparr>m_SessionName = name, m_OutputStream = \<lparr>os_path = Some p, os_failed = False\<rparr>,
                    m_ProfileCount = 0, m_IsSessionActive = True\<rparr>,
           files := (files (EndSession w))(p \<mapsto> ''{"otherData": {},"traceEvents":['')\<rparr>\<close>
    unfolding wb_def using inv opens fresh by (rule BeginSession_opened)
  have b1: "os_path (m_OutputStream (sink wb)) = Some p" and b2: "\<not> os_failed (m_OutputStream (sink wb))"
    and b3: "m_ProfileCount (sink wb) = 0" and b4: \<open>files wb p = Some ''{"otherData": {},"traceEvents":[''\<close>
    and b5: "m_IsSessionActive (sink wb)"
    by (simp_all add: wb)
  define we where "we = exec (map Write rs) wb"
  have we: \<open>we = wb\<lparr>sink := (sink wb)\<lparr>m_ProfileCount := of_nat (length rs)\<rparr>,
           files := (files wb)(p \<mapsto> ''{"otherData": {},"traceEvents":['' @ join_with '','' (map spec_event_object rs))\<rparr>\<close>
    unfolding we_def using b1 b2 b3 b4 bound by (rule writes_open)
  have e1: "os_path (m_OutputStream (sink we)) = Some p" and e2: "\<not> os_failed (m_OutputStream (sink we))"
    and e3: "m_IsSessionActive (sink we)"
    and e4: \<open>content (files we) p = ''{"otherData": {},"traceEvents":['' @ join_with '','' (map spec_event_object rs)\<close>
    using b1 b2 b5 by (simp_all add: we content_def)
  have "exec (Begin name p # map Write rs @ [End]) w = EndSession we"
    by (simp add: exec_Cons exec_append exec_Nil we_def wb_def)
  moreover have "files (EndSession we) p = Some (content (files we) p @ '']}'')"
    by (simp add: EndSession_open [OF e3 e1 e2])
  ultimately show ?thesis by (simp add: e4 spec_trace_document_def)
qed

lemma backslash_document:
  "parse_json (spec_trace_document [\<lparr>m_Name = [CHR 0x5C], m_ExecutionStart = 10, m_ExecutionEnd = 25, m_ThreadID = 7\<rparr>]) = None"
  by (simp add: parse_json_def spec_trace_document_def event_object_unfold emitted_name_def show_int_def
      show_nat.simps digit_char_def is_ws_def is_control_def is_digit_def after_number_def)

lemma parse_event:
  assumes "json_safe (emitted_name r)"
  shows "parse_json (spec_event_object r) = Some (event_json r)"
proof -
  have "lex Start (spec_event_object r @ []) = map_option ((@) (event_tokens r)) (lex Start [])"
    using assms by (rule lex_event)
  then have "lex Start (spec_event_object r) = Some (event_tokens r)" by simp
  moreover have "run (EValue, []) (event_tokens r) = Some (event_json r)"
    by (simp add: event_tokens_def event_json_def)
  ultimately show ?thesis by (simp add: parse_json_def)
qed

lemma WriteProfile_open_files:
  assumes "os_path (m_OutputStream (sink w)) = Some p" "\<not> os_failed (m_OutputStream (sink w))"
  shows "files (WriteProfile r w) =
         (files w)(p \<mapsto> content (files w) p @ (if 0 <s m_ProfileCount (sink w) then '','' else []) @ spec_event_object r)"
  by (simp add: WriteProfile_open_aux [OF assms] append_file_def)

text \<open>
  C2, amended. Take any state the sink can reach from program start in which a session is
  active or the event counter is 0, a destination that can be opened, and fewer than
  \<open>2 ^ 31\<close> measurements whose labels hold neither a backslash nor a control character.
  Then the session begun there with \<^verbatim>\<open>BeginSession\<close>, fed these \<open>N\<close> measurements by
  \<^verbatim>\<open>WriteProfile\<close> and ended with \<^verbatim>\<open>EndSession\<close> leaves in its file exactly the header, the
  \<open>N\<close> event objects with a comma before each but the first and none after the last, and
  the footer. This text is valid JSON: an object whose \<^verbatim>\<open>traceEvents\<close> member is an array of
  exactly the \<open>N\<close> event objects, in the order of the calls.
\<close>

theorem session_document_valid_json:
  assumes start: "w = exec ops (initial ok f)"
    and fresh: "m_IsSessionActive (sink w) \<or> m_ProfileCount (sink w) = 0"
    and opens: "ok p"
    and bound: "length rs < 2 ^ 31"
    and labels: "list_all (\<lambda>r. plain_label (m_Name r)) rs"
  shows "files (exec (Begin name p # map Write rs @ [End]) w) p = Some (spec_trace_document rs)
     \<and> valid_json (spec_trace_document rs)
     \<and> parse_json (spec_trace_document rs)
         = Some (JObj [(''otherData'', JObj []), (''traceEvents'', JArr (map event_json rs))])
     \<and> length (map event_json rs) = length rs"
proof -
  have inv: "idle_closed w" unfolding start by (rule reachable_invariant)
  have ok: "openable w p" using opens by (simp add: start reachable_openable)
  have doc: "files (exec (Begin name p # map Write rs @ [End]) w) p = Some (spec_trace_document rs)"
    using inv fresh ok bound by (rule session_file)
  have "list_all (\<lambda>r. json_safe (emitted_name r)) rs"
    using labels by (induction rs) (simp_all add: plain_label_safe)
  then have parse: "parse_json (spec_trace_document rs) = Some (document_json rs)"
    by (rule parse_trace_document)
  show ?thesis using doc parse by (simp add: valid_json_def document_json_def)
qed

theorem session_document_valid_json_witness:
  "files (exec (Begin ''T'' ''results.json''
                # map Write [\<lparr>m_Name = ''A'', m_ExecutionStart = 10, m_ExecutionEnd = 25, m_ThreadID = 7\<rparr>,
                             \<lparr>m_Name = ''B'', m_ExecutionStart = 30, m_ExecutionEnd = 31, m_ThreadID = 7\<rparr>]
                @ [End]) (exec [] (initial every_path no_files))) ''results.json''
     = Some (spec_trace_document [\<lparr>m_Name = ''A'', m_ExecutionStart = 10, m_ExecutionEnd = 25, m_ThreadID = 7\<rparr>,
                             \<lparr>m_Name = ''B'', m_ExecutionStart = 30, m_ExecutionEnd = 31, m_ThreadID = 7\<rparr>])
   \<and> valid_json (spec_trace_document [\<lparr>m_Name = ''A'', m_ExecutionStart = 10, m_ExecutionEnd = 25, m_ThreadID = 7\<rparr>,
                             \<lparr>m_Name = ''B'', m_ExecutionStart = 30, m_ExecutionEnd = 31, m_ThreadID = 7\<rparr>])"
proof -
  have a: "m_IsSessionActive (sink (exec [] (initial every_path no_files)))
           \<or> m_ProfileCount (sink (exec [] (initial every_path no_files))) = 0"
    by (simp add: exec_def initial_def)
  have b: "every_path ''results.json''" by (simp add: every_path_def)
  have c: "length [\<lparr>m_Name = ''A'', m_ExecutionStart = 10, m_ExecutionEnd = 25, m_ThreadID = 7\<rparr>,
                   \<lparr>m_Name = ''B'', m_ExecutionStart = 30, m_ExecutionEnd = 31, m_ThreadID = 7\<rparr>] < (2::nat) ^ 31"
    by simp
  have d: "list_all (\<lambda>r. plain_label (m_Name r))
             [\<lparr>m_Name = ''A'', m_ExecutionStart = 10, m_ExecutionEnd = 25, m_ThreadID = 7\<rparr>,
              \<lparr>m_Name = ''B'', m_ExecutionStart = 30, m_ExecutionEnd = 31, m_ThreadID = 7\<rparr>]"
    by (simp add: plain_label_def is_control_def)
  show ?thesis
    using session_document_valid_json [OF refl a b c d, of "''T''"] by simp
qed

text \<open>
  Without the condition on the labels the document need not be valid JSON: a label that
  is a single backslash escapes the quote that should close the \<^verbatim>\<open>name\<close> string.
\<close>

theorem session_document_backslash_counterexample:
  "files (exec [Begin ''T'' ''results.json'',
                Write \<lparr>m_Name = [CHR 0x5C], m_ExecutionStart = 10, m_ExecutionEnd = 25, m_ThreadID = 7\<rparr>,
                End] (initial every_path no_files)) ''results.json''
     = Some (spec_trace_document [\<lparr>m_Name = [CHR 0x5C], m_ExecutionStart = 10, m_ExecutionEnd = 25, m_ThreadID = 7\<rparr>])
   \<and> \<not> valid_json (spec_trace_document [\<lparr>m_Name = [CHR 0x5C], m_ExecutionStart = 10, m_ExecutionEnd = 25, m_ThreadID = 7\<rparr>])"
proof -
  have "files (exec (Begin ''T'' ''results.json''
                # map Write [\<lparr>m_Name = [CHR 0x5C], m_ExecutionStart = 10, m_ExecutionEnd = 25, m_ThreadID = 7\<rparr>]
                @ [End]) (initial every_path no_files)) ''results.json''
     = Some (spec_trace_document [\<lparr>m_Name = [CHR 0x5C], m_ExecutionStart = 10, m_ExecutionEnd = 25, m_ThreadID = 7\<rparr>])"
  proof (rule session_file)
    show "idle_closed (initial every_path no_files)" by (rule initial_invariant)
  qed (simp_all add: initial_def every_path_def)
  then show ?thesis by (simp add: valid_json_def backslash_document)
qed

section \<open>Measurements outside a session\<close>

text \<open>
  A call of \<^verbatim>\<open>WriteProfile\<close> while no session is active does change the sink: the event
  counter goes from 0 to 1 at program start.
\<close>

theorem idle_write_changes_count_counterexample:
  "\<not> m_IsSessionActive (sink (initial every_path no_files))
   \<and> m_ProfileCount (sink (WriteProfile
         \<lparr>m_Name = ''f'', m_ExecutionStart = 10, m_ExecutionEnd = 25, m_ThreadID = 7\<rparr>
         (initial every_path no_files))) = 1
   \<and> m_ProfileCount (sink (initial every_path no_files)) = 0
   \<and> sink (WriteProfile
         \<lparr>m_Name = ''f'', m_ExecutionStart = 10, m_ExecutionEnd = 25, m_ThreadID = 7\<rparr>
         (initial every_path no_files)) \<noteq> sink (initial every_path no_files)"
proof -
  have c: "os_path (m_OutputStream (sink (initial every_path no_files))) = None"
    by (simp add: initial_def)
  show ?thesis
    unfolding WriteProfile_closed [OF c] by (simp add: initial_def)
qed

text \<open>
  C3, amended. In every state the sink can reach from program start, a call of
  \<^verbatim>\<open>WriteProfile\<close> made while no session is active writes nothing: every file is as it
  was. The session stays inactive, the stream stays without an open file, the session
  name and the environment are unchanged, and nothing is reported to the caller (the
  operation returns the new state and nothing else).
\<close>

theorem idle_write_dropped:
  assumes "w = exec ops (initial ok f)" and "\<not> m_IsSessionActive (sink w)"
  shows "files (WriteProfile r w) = files w
     \<and> \<not> m_IsSessionActive (sink (WriteProfile r w))
     \<and> os_path (m_OutputStream (sink (WriteProfile r w))) = None
     \<and> m_SessionName (sink (WriteProfile r w)) = m_SessionName (sink w)
     \<and> openable (WriteProfile r w) = openable w"
proof -
  have "idle_closed w" unfolding assms(1) by (rule reachable_invariant)
  with assms(2) have c: "os_path (m_OutputStream (sink w)) = None" by (simp add: idle_closed_def)
  show ?thesis unfolding WriteProfile_closed [OF c] using assms(2) by simp
qed

theorem idle_write_dropped_witness:
  "\<not> m_IsSessionActive (sink (exec [Begin ''T'' ''results.json'', End] (initial every_path no_files)))
   \<and> files (WriteProfile \<lparr>m_Name = ''f'', m_ExecutionStart = 10, m_ExecutionEnd = 25, m_ThreadID = 7\<rparr>
              (exec [Begin ''T'' ''results.json'', End] (initial every_path no_files)))
       = files (exec [Begin ''T'' ''results.json'', End] (initial every_path no_files))"
proof -
  have a: "\<not> m_IsSessionActive (sink (exec [Begin ''T'' ''results.json'', End] (initial every_path no_files)))"
    by (simp add: exec_Cons exec_Nil EndSession_idle)
  show ?thesis
    using idle_write_dropped [OF refl a] a by simp
qed

section \<open>Stopping a stopped timer\<close>




section \<open>Beginning a session while one is active\<close>





lemma first_session:
  \<open>BeginSession ''T'' ''a.json'' (initial every_path no_files) =
     \<lparr>sink = \<lparr>m_SessionName = ''T'', m_OutputStream = \<lparr>os_path = Some ''a.json'', os_failed = False\<rparr>,
               m_ProfileCount = 0, m_IsSessionActive = True\<rparr>,
      files = no_files(''a.json'' \<mapsto> ''{"otherData": {},"traceEvents":[''), openable = every_path\<rparr>\<close>
proof -
  have h: "\<not> m_IsSessionActive (sink (initial every_path no_files))"
    "os_path (m_OutputStream (sink (initial every_path no_files))) = None"
    "openable (initial every_path no_files) ''a.json''"
    by (simp_all add: initial_def every_path_def)
  show ?thesis unfolding BeginSession_idle_ok [OF h] by (simp add: initial_def)
qed


lemma on_stream_count: "m_ProfileCount (sink (on_stream g w)) = m_ProfileCount (sink w)"
  by (simp add: on_stream_def split: prod.splits)

lemma BeginSession_count:
  "m_ProfileCount (sink (BeginSession name q w))
   = (if m_IsSessionActive (sink w) then 0 else m_ProfileCount (sink w))"
proof -
  have idle: "m_ProfileCount (sink (BeginSession name q v)) = m_ProfileCount (sink v)"
    if "\<not> m_IsSessionActive (sink v)" for v
    using that
    by (simp add: BeginSession_def Let_def WriteHeader_def flush_id out_keeps on_stream_count)
  show ?thesis
  proof (cases "m_IsSessionActive (sink w)")
    case True
    have "m_ProfileCount (sink (BeginSession name q w)) = m_ProfileCount (sink (BeginSession name q (EndSession w)))"
      using BeginSession_ends_first [of name q w] by simp
    also have "\<dots> = m_ProfileCount (sink (EndSession w))"
      by (rule idle) (rule EndSession_idle)
    also have "\<dots> = 0" using True by (rule EndSession_sink)
    finally show ?thesis using True by simp
  next
    case False
    then show ?thesis by (simp add: idle)
  qed
qed

section \<open>The event counter at the beginning of a session\<close>

lemma idle_write_then_begin:
  \<open>BeginSession ''T'' ''results.json''
      (WriteProfile \<lparr>m_Name = ''f'', m_ExecutionStart = 10, m_ExecutionEnd = 25, m_ThreadID = 7\<rparr>
         (initial every_path no_files)) =
     \<lparr>sink = \<lparr>m_SessionName = ''T'', m_OutputStream = \<lparr>os_path = Some ''results.json'', os_failed = False\<rparr>,
               m_ProfileCount = 1, m_IsSessionActive = True\<rparr>,
      files = no_files(''results.json'' \<mapsto> ''{"otherData": {},"traceEvents":[''), openable = every_path\<rparr>\<close>
proof -
  define w1 where "w1 = WriteProfile \<lparr>m_Name = ''f'', m_ExecutionStart = 10, m_ExecutionEnd = 25, m_ThreadID = 7\<rparr>
         (initial every_path no_files)"
  have c: "os_path (m_OutputStream (sink (initial every_path no_files))) = None"
    by (simp add: initial_def)
  have w1: "w1 = \<lparr>sink = \<lparr>m_SessionName = ''None'', m_OutputStream = \<lparr>os_path = None, os_failed = True\<rparr>,
               m_ProfileCount = 1, m_IsSessionActive = False\<rparr>,
      files = no_files, openable = every_path\<rparr>"
    unfolding w1_def WriteProfile_closed [OF c] by (simp add: initial_def)
  have h: "\<not> m_IsSessionActive (sink w1)" "os_path (m_OutputStream (sink w1)) = None"
    "openable w1 ''results.json''"
    by (simp_all add: w1 every_path_def)
  show ?thesis unfolding w1_def [symmetric] BeginSession_idle_ok [OF h] by (simp add: w1)
qed

lemma leading_comma_document:
  \<open>parse_json (''{"otherData": {},"traceEvents":['' @ '','' @
      spec_event_object \<lparr>m_Name = ''g'', m_ExecutionStart = 30, m_ExecutionEnd = 31, m_ThreadID = 7\<rparr> @ '']}'') = None\<close>
  by (simp add: parse_json_def event_object_unfold emitted_name_def show_int_def
      show_nat.simps digit_char_def is_ws_def is_control_def is_digit_def after_number_def)

text \<open>
  C6. After \<^verbatim>\<open>BeginSession\<close> the event counter should be 0, so that the first measurement
  of the session is written without a comma before it. \<^verbatim>\<open>BeginSession\<close> does not reset the
  counter, though; only \<^verbatim>\<open>EndSession\<close> does. Run at program start: one measurement submitted
  before any session, then \<^verbatim>\<open>BeginSession\<close>, one measurement, \<^verbatim>\<open>EndSession\<close>. The counter is
  1 when \<^verbatim>\<open>BeginSession\<close> returns, the session's only event object is written after a
  comma, and the document is not valid JSON.
\<close>

theorem begin_keeps_stale_count:
  \<open>m_ProfileCount (sink (exec [Write \<lparr>m_Name = ''f'', m_ExecutionStart = 10, m_ExecutionEnd = 25, m_ThreadID = 7\<rparr>,
                                Begin ''T'' ''results.json''] (initial every_path no_files))) = 1
   \<and> files (exec [Write \<lparr>m_Name = ''f'', m_ExecutionStart = 10, m_ExecutionEnd = 25, m_ThreadID = 7\<rparr>,
                  Begin ''T'' ''results.json'',
                  Write \<lparr>m_Name = ''g'', m_ExecutionStart = 30, m_ExecutionEnd = 31, m_ThreadID = 7\<rparr>,
                  End] (initial every_path no_files)) ''results.json''
       = Some (''{"otherData": {},"traceEvents":['' @ '','' @
               spec_event_object \<lparr>m_Name = ''g'', m_ExecutionStart = 30, m_ExecutionEnd = 31, m_ThreadID = 7\<rparr> @ '']}'')
   \<and> \<not> valid_json (''{"otherData": {},"traceEvents":['' @ '','' @
               spec_event_object \<lparr>m_Name = ''g'', m_ExecutionStart = 30, m_ExecutionEnd = 31, m_ThreadID = 7\<rparr> @ '']}'')\<close>
proof -
  define w2 where "w2 = BeginSession ''T'' ''results.json''
      (WriteProfile \<lparr>m_Name = ''f'', m_ExecutionStart = 10, m_ExecutionEnd = 25, m_ThreadID = 7\<rparr>
         (initial every_path no_files))"
  define g where "g = \<lparr>m_Name = ''g'', m_ExecutionStart = 30, m_ExecutionEnd = 31, m_ThreadID = 7\<rparr>"
  note w2 = idle_write_then_begin [folded w2_def]
  have o: "os_path (m_OutputStream (sink w2)) = Some ''results.json''" "\<not> os_failed (m_OutputStream (sink w2))"
    by (simp_all add: w2)
  have one: "m_ProfileCount (sink w2) = 1" by (simp add: w2)
  define w3 where "w3 = WriteProfile g w2"
  have f3: \<open>files w3 ''results.json'' = Some (''{"otherData": {},"traceEvents":['' @ '','' @ spec_event_object g)\<close>
    unfolding w3_def WriteProfile_open_files [OF o] by (simp add: w2 content_def word_sless_alt)
  have o3: "os_path (m_OutputStream (sink w3)) = Some ''results.json''" "\<not> os_failed (m_OutputStream (sink w3))"
    "m_IsSessionActive (sink w3)"
    unfolding w3_def WriteProfile_open_aux [OF o] by (simp_all add: w2)
  have f4: \<open>files (EndSession w3) ''results.json''
      = Some (''{"otherData": {},"traceEvents":['' @ '','' @ spec_event_object g @ '']}'')\<close>
    unfolding EndSession_open [OF o3(3) o3(1) o3(2)] using f3 by (simp add: content_def)
  have e: "exec [Write \<lparr>m_Name = ''f'', m_ExecutionStart = 10, m_ExecutionEnd = 25, m_ThreadID = 7\<rparr>,
                  Begin ''T'' ''results.json'', Write g, End] (initial every_path no_files) = EndSession w3"
    by (simp add: exec_def w3_def w2_def)
  have e2: "exec [Write \<lparr>m_Name = ''f'', m_ExecutionStart = 10, m_ExecutionEnd = 25, m_ThreadID = 7\<rparr>,
                  Begin ''T'' ''results.json''] (initial every_path no_files) = w2"
    by (simp add: exec_def w2_def)
  show ?thesis
    unfolding g_def [symmetric] e e2 using one f4 leading_comma_document
    by (simp add: valid_json_def g_def)
qed

section \<open>A destination that cannot be opened\<close>

lemma BeginSession_unopenable:
  assumes "\<not> openable w q"
  shows "BeginSession name q w =
         (EndSession w)\<lparr>sink := (sink (EndSession w))\<lparr>m_SessionName := name,
                    m_OutputStream := (m_OutputStream (sink (EndSession w)))\<lparr>os_failed := True\<rparr>,
                    m_IsSessionActive := True\<rparr>\<rparr>"
proof -
  have "\<not> m_IsSessionActive (sink (EndSession w))" by (rule EndSession_idle)
  moreover have "\<not> openable (EndSession w) q" using assms by (simp add: EndSession_openable)
  ultimately have "BeginSession name q (EndSession w) =
         (EndSession w)\<lparr>sink := (sink (EndSession w))\<lparr>m_SessionName := name,
                    m_OutputStream := (m_OutputStream (sink (EndSession w)))\<lparr>os_failed := True\<rparr>,
                    m_IsSessionActive := True\<rparr>\<rparr>"
    by (rule BeginSession_idle_fail)
  then show ?thesis using BeginSession_ends_first [of name q w] by simp
qed

text \<open>
  \<^verbatim>\<open>BeginSession\<close> sets \<^verbatim>\<open>m_IsSessionActive\<close> before it opens the destination and never looks
  at the outcome: after a failed open the session counts as active.
\<close>

theorem failed_open_session_active_counterexample:
  "\<not> openable (initial no_path no_files) ''results.json''
   \<and> m_IsSessionActive (sink (BeginSession ''T'' ''results.json'' (initial no_path no_files)))"
  by (simp add: BeginSession_active) (simp add: initial_def no_path_def)

text \<open>
  C7, amended. If \<^verbatim>\<open>BeginSession\<close> cannot open the output destination it fails silently:
  it returns no error, the stream is left in its failed state and the session flag is
  set all the same. In that state no measurement is recorded: whatever calls of
  \<^verbatim>\<open>WriteProfile\<close> follow, and also when the session is ended, every file is as the end of
  the prior session (if one was active) left it.
\<close>

theorem failed_open_records_nothing:
  assumes "\<not> openable w q"
  shows "os_failed (m_OutputStream (sink (BeginSession name q w)))
     \<and> m_IsSessionActive (sink (BeginSession name q w))
     \<and> files (BeginSession name q w) = files (EndSession w)
     \<and> files (exec (map Write rs) (BeginSession name q w)) = files (EndSession w)
     \<and> files (EndSession (exec (map Write rs) (BeginSession name q w))) = files (EndSession w)"
proof -
  define v where "v = BeginSession name q w"
  have v: "v = (EndSession w)\<lparr>sink := (sink (EndSession w))\<lparr>m_SessionName := name,
                    m_OutputStream := (m_OutputStream (sink (EndSession w)))\<lparr>os_failed := True\<rparr>,
                    m_IsSessionActive := True\<rparr>\<rparr>"
    unfolding v_def using assms by (rule BeginSession_unopenable)
  have f: "os_failed (m_OutputStream (sink v))" and a: "m_IsSessionActive (sink v)"
    and k: "files v = files (EndSession w)"
    by (simp_all add: v)
  note wr = writes_failed [OF f, of rs]
  from wr have wf: "os_failed (m_OutputStream (sink (exec (map Write rs) v)))" by simp
  have "files (EndSession (exec (map Write rs) v)) = files (exec (map Write rs) v)"
    using wf by (rule EndSession_files_failed)
  with wr f a k show ?thesis unfolding v_def by simp
qed

theorem failed_open_records_nothing_witness:
  "\<not> openable (initial no_path no_files) ''results.json''
   \<and> files (exec (map Write [\<lparr>m_Name = ''f'', m_ExecutionStart = 10, m_ExecutionEnd = 25, m_ThreadID = 7\<rparr>])
               (BeginSession ''T'' ''results.json'' (initial no_path no_files))) = no_files"
proof -
  have a: "\<not> openable (initial no_path no_files) ''results.json''"
    by (simp add: initial_def no_path_def)
  have "files (EndSession (initial no_path no_files)) = no_files"
    by (simp add: EndSession_def initial_def)
  with failed_open_records_nothing [OF a, of "''T''"
      "[\<lparr>m_Name = ''f'', m_ExecutionStart = 10, m_ExecutionEnd = 25, m_ThreadID = 7\<rparr>]"] a
  show ?thesis by simp
qed

section \<open>The event object\<close>

text \<open>
  C8. On a stream that is open and in good state, \<^verbatim>\<open>WriteProfile\<close> appends to the file, after
  the separating comma if there is one, exactly the event object of the specification:
  the seven fields \<^verbatim>\<open>cat\<close>, \<^verbatim>\<open>dur\<close>, \<^verbatim>\<open>name\<close>, \<^verbatim>\<open>ph\<close>, \<^verbatim>\<open>pid\<close>, \<^verbatim>\<open>tid\<close>, \<^verbatim>\<open>ts\<close> in this
  order, with \<^verbatim>\<open>cat\<close> the string \<^verbatim>\<open>function\<close>, \<^verbatim>\<open>dur\<close> the end time minus the start time as
  the \<^verbatim>\<open>long long\<close> subtraction computes it (the difference of the two integers whenever
  that fits into 64 bits), \<^verbatim>\<open>name\<close> the label with its quotes replaced, \<^verbatim>\<open>ph\<close> the string
  \<^verbatim>\<open>X\<close>, \<^verbatim>\<open>pid\<close> the number 0, \<^verbatim>\<open>tid\<close> the thread id and \<^verbatim>\<open>ts\<close> the start time. For a
  label without backslash and control characters the text is a JSON object with exactly
  these seven members.
\<close>

theorem event_object_seven_fields:
  assumes "os_path (m_OutputStream (sink w)) = Some p" "\<not> os_failed (m_OutputStream (sink w))"
  shows "files (WriteProfile r w) p
           = Some (content (files w) p @ (if 0 <s m_ProfileCount (sink w) then '','' else []) @ spec_event_object r)
     \<and> spec_event_fields r =
          [(''cat'', quoted ''function''),
           (''dur'', show_int (sint (m_ExecutionEnd r - m_ExecutionStart r))),
           (''name'', quoted (std_replace (m_Name r) (CHR 0x22) (CHR 0x27))),
           (''ph'', quoted ''X''),
           (''pid'', ''0''),
           (''tid'', show_int (uint (m_ThreadID r))),
           (''ts'', show_int (sint (m_ExecutionStart r)))]
     \<and> (- (2 ^ 63) \<le> sint (m_ExecutionEnd r) - sint (m_ExecutionStart r)
          \<and> sint (m_ExecutionEnd r) - sint (m_ExecutionStart r) < 2 ^ 63 \<longrightarrow>
        sint (m_ExecutionEnd r - m_ExecutionStart r) = sint (m_ExecutionEnd r) - sint (m_ExecutionStart r))
     \<and> (plain_label (m_Name r) \<longrightarrow>
        parse_json (spec_event_object r) =
          Some (JObj [(''cat'', JStr ''function''),
                      (''dur'', JNum (show_int (sint (m_ExecutionEnd r - m_ExecutionStart r)))),
                      (''name'', JStr (std_replace (m_Name r) (CHR 0x22) (CHR 0x27))),
                      (''ph'', JStr ''X''),
                      (''pid'', JNum ''0''),
                      (''tid'', JNum (show_int (uint (m_ThreadID r)))),
                      (''ts'', JNum (show_int (sint (m_ExecutionStart r))))]))"
proof -
  have a: "files (WriteProfile r w) p
           = Some (content (files w) p @ (if 0 <s m_ProfileCount (sink w) then '','' else []) @ spec_event_object r)"
    by (simp add: WriteProfile_open_files [OF assms])
  have b: "spec_event_fields r =
          [(''cat'', quoted ''function''),
           (''dur'', show_int (sint (m_ExecutionEnd r - m_ExecutionStart r))),
           (''name'', quoted (std_replace (m_Name r) (CHR 0x22) (CHR 0x27))),
           (''ph'', quoted ''X''),
           (''pid'', ''0''),
           (''tid'', show_int (uint (m_ThreadID r))),
           (''ts'', show_int (sint (m_ExecutionStart r)))]"
    by (simp add: spec_event_fields_def emitted_name_def)
  have c: "sint (m_ExecutionEnd r - m_ExecutionStart r) = sint (m_ExecutionEnd r) - sint (m_ExecutionStart r)"
    if "- (2 ^ 63) \<le> sint (m_ExecutionEnd r) - sint (m_ExecutionStart r)"
       "sint (m_ExecutionEnd r) - sint (m_ExecutionStart r) < 2 ^ 63"
    using that by (rule sint_difference)
  have d: "parse_json (spec_event_object r) = Some (event_json r)" if "plain_label (m_Name r)"
    using that by (intro parse_event plain_label_safe)
  show ?thesis using a b c d by (simp add: event_json_def emitted_name_def)
qed

theorem event_object_seven_fields_witness:
  \<open>os_path (m_OutputStream (sink (BeginSession ''T'' ''a.json'' (initial every_path no_files)))) = Some ''a.json''
   \<and> \<not> os_failed (m_OutputStream (sink (BeginSession ''T'' ''a.json'' (initial every_path no_files))))
   \<and> files (WriteProfile \<lparr>m_Name = ''A'', m_ExecutionStart = 10, m_ExecutionEnd = 25, m_ThreadID = 7\<rparr>
               (BeginSession ''T'' ''a.json'' (initial every_path no_files))) ''a.json''
       = Some (''{"otherData": {},"traceEvents":['' @
               ''{"cat":"function","dur":15,"name":"A","ph":"X","pid":0,"tid":7,"ts":10}'')
   \<and> plain_label ''A''
   \<and> parse_json (spec_event_object \<lparr>m_Name = ''A'', m_ExecutionStart = 10, m_ExecutionEnd = 25, m_ThreadID = 7\<rparr>)
       = Some (JObj [(''cat'', JStr ''function''), (''dur'', JNum ''15''), (''name'', JStr ''A''),
                     (''ph'', JStr ''X''), (''pid'', JNum ''0''), (''tid'', JNum ''7''), (''ts'', JNum ''10'')])
   \<and> sint (25 - 10 :: 64 word) = sint (25 :: 64 word) - sint (10 :: 64 word)\<close>
proof -
  define W where "W = BeginSession ''T'' ''a.json'' (initial every_path no_files)"
  define r where "r = \<lparr>m_Name = ''A'', m_ExecutionStart = 10, m_ExecutionEnd = 25, m_ThreadID = 7\<rparr>"
  have g: "- (2 ^ 63) \<le> sint (m_ExecutionEnd r) - sint (m_ExecutionStart r)
           \<and> sint (m_ExecutionEnd r) - sint (m_ExecutionStart r) < 2 ^ 63"
    by (simp add: r_def)
  have o: "os_path (m_OutputStream (sink W)) = Some ''a.json''" "\<not> os_failed (m_OutputStream (sink W))"
    by (simp_all add: W_def first_session)
  have l: "plain_label (m_Name r)" by (simp add: r_def plain_label_def is_control_def)
  have c: "\<not> 0 <s m_ProfileCount (sink W)" by (simp add: W_def first_session)
  have t: \<open>spec_event_object r = ''{"cat":"function","dur":15,"name":"A","ph":"X","pid":0,"tid":7,"ts":10}''\<close>
    by (simp add: r_def event_object_unfold emitted_name_def show_int_def show_nat.simps digit_char_def)
  have h: \<open>content (files W) ''a.json'' = ''{"otherData": {},"traceEvents":[''\<close>
    by (simp add: W_def first_session content_def)
  note e = event_object_seven_fields [OF o, of r]
  from e [THEN conjunct1] c t h
  have a: \<open>files (WriteProfile r W) ''a.json''
       = Some (''{"otherData": {},"traceEvents":['' @
               ''{"cat":"function","dur":15,"name":"A","ph":"X","pid":0,"tid":7,"ts":10}'')\<close>
    by simp
  from e [THEN conjunct2, THEN conjunct2, THEN conjunct2, rule_format, OF l]
  have p: "parse_json (spec_event_object r)
       = Some (JObj [(''cat'', JStr ''function''), (''dur'', JNum ''15''), (''name'', JStr ''A''),
                     (''ph'', JStr ''X''), (''pid'', JNum ''0''), (''tid'', JNum ''7''), (''ts'', JNum ''10'')])"
    by (simp add: r_def show_int_def show_nat.simps digit_char_def)
  from e [THEN conjunct2, THEN conjunct2, THEN conjunct1, rule_format, OF g]
  have d: "sint (25 - 10 :: 64 word) = sint (25 :: 64 word) - sint (10 :: 64 word)"
    by (simp add: r_def)
  from l have l': "plain_label ''A''" by (simp add: r_def)
  show ?thesis unfolding W_def [symmetric] r_def [symmetric] by (intro conjI o a l' p d)
qed

section \<open>The label\<close>

text \<open>
  C9. \<^verbatim>\<open>WriteProfile\<close> writes the label between the quotes of the \<^verbatim>\<open>name\<close> field with every
  double quote replaced by a single quote and nothing else changed: the written name has
  the length of the label, and each of its characters is the label's character at that
  position, or the single quote where the label has a double quote. Backslashes and
  control characters pass through as they are.
\<close>

theorem label_quotes_replaced:
  assumes "os_path (m_OutputStream (sink w)) = Some p" "\<not> os_failed (m_OutputStream (sink w))"
  shows \<open>files (WriteProfile r w) p
           = Some (content (files w) p @ (if 0 <s m_ProfileCount (sink w) then '','' else [])
                   @ ''{"cat":"function","dur":'' @ show_int (sint (m_ExecutionEnd r - m_ExecutionStart r))
                   @ '',"name":"'' @ std_replace (m_Name r) (CHR 0x22) (CHR 0x27)
                   @ ''","ph":"X","pid":0,"tid":'' @ show_int (uint (m_ThreadID r))
                   @ '',"ts":'' @ show_int (sint (m_ExecutionStart r)) @ ''}'')
     \<and> length (std_replace (m_Name r) (CHR 0x22) (CHR 0x27)) = length (m_Name r)
     \<and> (\<forall>i < length (m_Name r).
           std_replace (m_Name r) (CHR 0x22) (CHR 0x27) ! i
             = (if m_Name r ! i = CHR 0x22 then CHR 0x27 else m_Name r ! i))\<close>
proof -
  have \<open>files (WriteProfile r w) p
           = Some (content (files w) p @ (if 0 <s m_ProfileCount (sink w) then '','' else []) @ spec_event_object r)\<close>
    by (simp add: WriteProfile_open_files [OF assms])
  then show ?thesis
    by (simp add: event_object_unfold emitted_name_def std_replace_map)
qed

theorem label_quotes_replaced_witness:
  \<open>os_path (m_OutputStream (sink (BeginSession ''T'' ''a.json'' (initial every_path no_files)))) = Some ''a.json''
   \<and> \<not> os_failed (m_OutputStream (sink (BeginSession ''T'' ''a.json'' (initial every_path no_files))))
   \<and> files (WriteProfile \<lparr>m_Name = ''he said "hi"'' @ [CHR 0x5C, CHR 0x0A],
                            m_ExecutionStart = 10, m_ExecutionEnd = 25, m_ThreadID = 7\<rparr>
               (BeginSession ''T'' ''a.json'' (initial every_path no_files))) ''a.json''
       = Some (''{"otherData": {},"traceEvents":['' @ ''{"cat":"function","dur":15,"name":"he said ''
               @ [CHR 0x27] @ ''hi'' @ [CHR 0x27, CHR 0x5C, CHR 0x0A] @ ''","ph":"X","pid":0,"tid":7,"ts":10}'')
   \<and> std_replace ''he said "hi"'' (CHR 0x22) (CHR 0x27) = ''he said '' @ [CHR 0x27] @ ''hi'' @ [CHR 0x27]
   \<and> (8::nat) < length (''he said "hi"'' @ [CHR 0x5C, CHR 0x0A])
   \<and> std_replace (''he said "hi"'' @ [CHR 0x5C, CHR 0x0A]) (CHR 0x22) (CHR 0x27) ! 8 = CHR 0x27\<close>
proof -
  define W where "W = BeginSession ''T'' ''a.json'' (initial every_path no_files)"
  define r where \<open>r = \<lparr>m_Name = ''he said "hi"'' @ [CHR 0x5C, CHR 0x0A],
                            m_ExecutionStart = 10, m_ExecutionEnd = 25, m_ThreadID = 7\<rparr>\<close>
  have o: "os_path (m_OutputStream (sink W)) = Some ''a.json''" "\<not> os_failed (m_OutputStream (sink W))"
    by (simp_all add: W_def first_session)
  have c: "\<not> 0 <s m_ProfileCount (sink W)" by (simp add: W_def first_session)
  have h: \<open>content (files W) ''a.json'' = ''{"otherData": {},"traceEvents":[''\<close>
    by (simp add: W_def first_session content_def)
  from label_quotes_replaced [OF o, of r, THEN conjunct1] c h
  have a: \<open>files (WriteProfile r W) ''a.json''
       = Some (''{"otherData": {},"traceEvents":['' @ ''{"cat":"function","dur":15,"name":"he said ''
               @ [CHR 0x27] @ ''hi'' @ [CHR 0x27, CHR 0x5C, CHR 0x0A] @ ''","ph":"X","pid":0,"tid":7,"ts":10}'')\<close>
    by (simp add: r_def show_int_def show_nat.simps digit_char_def)
  have b: \<open>std_replace ''he said "hi"'' (CHR 0x22) (CHR 0x27) = ''he said '' @ [CHR 0x27] @ ''hi'' @ [CHR 0x27]\<close>
    by simp
  have i: "(8::nat) < length (m_Name r)" by (simp add: r_def)
  from label_quotes_replaced [OF o, of r, THEN conjunct2, THEN conjunct2, rule_format, OF i]
  have x: \<open>std_replace (''he said "hi"'' @ [CHR 0x5C, CHR 0x0A]) (CHR 0x22) (CHR 0x27) ! 8 = CHR 0x27\<close>
    by (simp add: r_def)
  from i have i': \<open>(8::nat) < length (''he said "hi"'' @ [CHR 0x5C, CHR 0x0A])\<close> by (simp add: r_def)
  show ?thesis unfolding W_def [symmetric] r_def [symmetric] by (intro conjI o a b i' x)
qed

section \<open>The session name\<close>

lemma with_name_fields [simp]:
  "files (with_name n w) = files w"
  "openable (with_name n w) = openable w"
  "m_OutputStream (sink (with_name n w)) = m_OutputStream (sink w)"
  "m_ProfileCount (sink (with_name n w)) = m_ProfileCount (sink w)"
  "m_IsSessionActive (sink (with_name n w)) = m_IsSessionActive (sink w)"
  "m_SessionName (sink (with_name n w)) = n"
  "with_name n (with_name n' w) = with_name n w"
  by (simp_all add: with_name_def)

lemma on_stream_with_name: "on_stream g (with_name n w) = with_name n (on_stream g w)"
  by (simp add: on_stream_def with_name_def split: prod.splits)

lemma out_with_name: "out cs (with_name n w) = with_name n (out cs w)"
  by (simp add: out_def on_stream_with_name)

lemma count_with_name:
  "(with_name n w)\<lparr>sink := (sink (with_name n w))\<lparr>m_ProfileCount := c\<rparr>\<rparr>
   = with_name n (w\<lparr>sink := (sink w)\<lparr>m_ProfileCount := c\<rparr>\<rparr>)"
  by (simp add: with_name_def)

lemma active_with_name:
  "(with_name n w)\<lparr>sink := (sink (with_name n w))\<lparr>m_IsSessionActive := b\<rparr>\<rparr>
   = with_name n (w\<lparr>sink := (sink w)\<lparr>m_IsSessionActive := b\<rparr>\<rparr>)"
  by (simp add: with_name_def)

lemma WriteProfile_with_name: "WriteProfile r (with_name n w) = with_name n (WriteProfile r w)"
  by (simp add: WriteProfile_def Let_def count_with_name out_with_name on_stream_with_name)

lemma EndSession_with_name: "EndSession (with_name n w) = with_name n (EndSession w)"
  by (simp add: EndSession_def Let_def WriteFooter_def active_with_name count_with_name out_with_name
      on_stream_with_name)

lemma BeginSession_names: "BeginSession name q w = with_name name (BeginSession name' q w)"
  by (simp add: BeginSession_def Let_def with_name_def)

lemma name_last:
  "(with_name n v)\<lparr>sink := (sink (with_name n v))\<lparr>m_SessionName := name\<rparr>\<rparr>
   = v\<lparr>sink := (sink v)\<lparr>m_SessionName := name\<rparr>\<rparr>"
  by (simp add: with_name_def)

lemma BeginSession_with_name: "BeginSession name q (with_name n w) = BeginSession name q w"
  by (simp add: BeginSession_def Let_def WriteHeader_def EndSession_with_name active_with_name
      out_with_name on_stream_with_name name_last)

lemma exec_op_renamed:
  assumes "same_but_name x y"
  shows "\<exists>m. exec_op (with_name n w) y = with_name m (exec_op w x)"
proof (cases x)
  case (Begin name q)
  with assms obtain name' where y: "y = Begin name' q" by (cases y) simp_all
  have "BeginSession name' q (with_name n w) = with_name name' (BeginSession name q w)"
    unfolding BeginSession_with_name by (rule BeginSession_names)
  then show ?thesis unfolding Begin y by auto
next
  case End
  with assms have "y = End" by (cases y) simp_all
  with End show ?thesis by (auto simp: EndSession_with_name)
next
  case (Write r)
  with assms have "y = Write r" by (cases y) simp_all
  with Write show ?thesis by (auto simp: WriteProfile_with_name)
qed

lemma exec_renamed:
  "list_all2 same_but_name ops ops' \<Longrightarrow>
   \<exists>m. exec ops' (with_name n w) = with_name m (exec ops w)"
proof (induction ops ops' arbitrary: n w rule: list_all2_induct)
  case Nil
  show ?case by (auto simp: exec_Nil)
next
  case (Cons x ops y ops')
  obtain m where m: "exec_op (with_name n w) y = with_name m (exec_op w x)"
    using exec_op_renamed [OF Cons.hyps(1)] by blast
  from Cons.IH [of m "exec_op w x"] show ?case by (simp add: exec_Cons m)
qed

lemma with_name_same: "with_name (m_SessionName (sink w)) w = w"
  by (simp add: with_name_def)

text \<open>
  C10. The session name has no effect on the output. Two runs of the sink from the same
  state whose operations agree one by one except for the names passed to \<^verbatim>\<open>BeginSession\<close>
  end with the same files, byte for byte, and with the same sink but for the stored
  name: the name is kept in \<^verbatim>\<open>m_SessionName\<close> and never written to the stream.
\<close>

theorem session_name_not_in_output:
  assumes "list_all2 same_but_name ops ops'"
  shows "files (exec ops' w) = files (exec ops w)
     \<and> (sink (exec ops' w))\<lparr>m_SessionName := n\<rparr> = (sink (exec ops w))\<lparr>m_SessionName := n\<rparr>
     \<and> openable (exec ops' w) = openable (exec ops w)"
proof -
  obtain m where "exec ops' (with_name (m_SessionName (sink w)) w) = with_name m (exec ops w)"
    using exec_renamed [OF assms] by blast
  then have e: "exec ops' w = with_name m (exec ops w)"
    by (simp add: with_name_same)
  show ?thesis unfolding e by (simp add: with_name_def)
qed

theorem session_name_not_in_output_witness:
  "list_all2 same_but_name
     [Begin ''T'' ''a.json'', Write \<lparr>m_Name = ''A'', m_ExecutionStart = 10, m_ExecutionEnd = 25, m_ThreadID = 7\<rparr>, End]
     [Begin ''U'' ''a.json'', Write \<lparr>m_Name = ''A'', m_ExecutionStart = 10, m_ExecutionEnd = 25, m_ThreadID = 7\<rparr>, End]
   \<and> files (exec [Begin ''U'' ''a.json'',
                  Write \<lparr>m_Name = ''A'', m_ExecutionStart = 10, m_ExecutionEnd = 25, m_ThreadID = 7\<rparr>, End]
              (initial every_path no_files))
     = files (exec [Begin ''T'' ''a.json'',
                  Write \<lparr>m_Name = ''A'', m_ExecutionStart = 10, m_ExecutionEnd = 25, m_ThreadID = 7\<rparr>, End]
              (initial every_path no_files))"
proof -
  have a: "list_all2 same_but_name
     [Begin ''T'' ''a.json'', Write \<lparr>m_Name = ''A'', m_ExecutionStart = 10, m_ExecutionEnd = 25, m_ThreadID = 7\<rparr>, End]
     [Begin ''U'' ''a.json'', Write \<lparr>m_Name = ''A'', m_ExecutionStart = 10, m_ExecutionEnd = 25, m_ThreadID = 7\<rparr>, End]"
    by simp
  from session_name_not_in_output [OF a, of "initial every_path no_files", THEN conjunct1] a
  show ?thesis by (intro conjI)
qed

section \<open>The range of the event counter\<close>

text \<open>
  Every call of \<^verbatim>\<open>WriteProfile\<close> adds one to the 32-bit counter. Once the counter has gone
  round to the least \<^verbatim>\<open>int\<close>, after \<open>2 ^ 31\<close> calls in one session, the test
  \<^verbatim>\<open>m_ProfileCount++ > 0\<close> fails and the next event object is written without its comma.
\<close>

lemma writes_count:
  "m_ProfileCount (sink (exec (map Write rs) w)) = m_ProfileCount (sink w) + of_nat (length rs)"
  by (induction rs arbitrary: w) (simp_all add: exec_Nil exec_Cons WriteProfile_keeps)

lemma counter_wraps:
  assumes "os_path (m_OutputStream (sink w)) = Some p" "\<not> os_failed (m_OutputStream (sink w))"
    and "m_ProfileCount (sink w) = 2 ^ 31"
  shows "files (WriteProfile r w) p = Some (content (files w) p @ spec_event_object r)"
proof -
  have "\<not> 0 <s (2 ^ 31 :: 32 word)" by (simp add: word_sless_alt)
  then show ?thesis using assms(3) by (simp add: WriteProfile_open_files [OF assms(1,2)])
qed

section \<open>The scope timer submits once\<close>

text \<open>
  C1. A scope timer on which \<^verbatim>\<open>Stop()\<close> is never called explicitly (the list of explicit
  stops is empty) submits exactly one measurement to the trace sink over its lifetime,
  however its scope is left (fall-through, early return or thrown error): the world after
  the scope is the world before it with \<^verbatim>\<open>WriteProfile\<close> applied once, to the measurement
  made of the label, the start and end times in microseconds and the thread id. The timer
  ends stopped, the sink's event counter has grown by one, and where the sink's stream is
  open and in good state the file has grown by exactly one event object.
\<close>

theorem scope_exit_submits_once:
  "snd (profile_scope name start [] how now tid_hash w)
     = WriteProfile \<lparr>m_Name = name, m_ExecutionStart = microseconds_count start,
                     m_ExecutionEnd = microseconds_count now, m_ThreadID = ucast tid_hash\<rparr> w
   \<and> m_Stopped (fst (profile_scope name start [] how now tid_hash w))
   \<and> m_ProfileCount (sink (snd (profile_scope name start [] how now tid_hash w)))
       = m_ProfileCount (sink w) + 1
   \<and> (\<forall>p. os_path (m_OutputStream (sink w)) = Some p \<and> \<not> os_failed (m_OutputStream (sink w)) \<longrightarrow>
         files (snd (profile_scope name start [] how now tid_hash w)) p
           = Some (content (files w) p @ (if 0 <s m_ProfileCount (sink w) then '','' else [])
                   @ spec_event_object \<lparr>m_Name = name, m_ExecutionStart = microseconds_count start,
                        m_ExecutionEnd = microseconds_count now, m_ThreadID = ucast tid_hash\<rparr>))"
proof -
  have once: "snd (profile_scope name start [] how now tid_hash w)
     = WriteProfile \<lparr>m_Name = name, m_ExecutionStart = microseconds_count start,
                     m_ExecutionEnd = microseconds_count now, m_ThreadID = ucast tid_hash\<rparr> w"
    by (cases how)
       (simp_all add: profile_scope_def InstrumentationTimer_delete_def InstrumentationTimer_new_def
          Stop_def Let_def)
  have stopped: "m_Stopped (fst (profile_scope name start [] how now tid_hash w))"
    by (cases how)
       (simp_all add: profile_scope_def InstrumentationTimer_delete_def InstrumentationTimer_new_def
          Stop_def Let_def)
  show ?thesis
    unfolding once using stopped by (simp add: WriteProfile_keeps WriteProfile_open_files)
qed

theorem scope_exit_submits_once_witness:
  \<open>os_path (m_OutputStream (sink (BeginSession ''T'' ''a.json'' (initial every_path no_files)))) = Some ''a.json''
   \<and> \<not> os_failed (m_OutputStream (sink (BeginSession ''T'' ''a.json'' (initial every_path no_files))))
   \<and> m_Stopped (fst (profile_scope ''f'' 1000 [] Thrown 9000 1
                        (BeginSession ''T'' ''a.json'' (initial every_path no_files))))
   \<and> m_ProfileCount (sink (snd (profile_scope ''f'' 1000 [] Thrown 9000 1
                        (BeginSession ''T'' ''a.json'' (initial every_path no_files))))) = 1
   \<and> files (snd (profile_scope ''f'' 1000 [] Thrown 9000 1
                        (BeginSession ''T'' ''a.json'' (initial every_path no_files)))) ''a.json''
       = Some (''{"otherData": {},"traceEvents":['' @
               ''{"cat":"function","dur":8,"name":"f","ph":"X","pid":0,"tid":1,"ts":1}'')\<close>
proof -
  define W where "W = BeginSession ''T'' ''a.json'' (initial every_path no_files)"
  have o: "os_path (m_OutputStream (sink W)) = Some ''a.json'' \<and> \<not> os_failed (m_OutputStream (sink W))"
    by (simp add: W_def first_session)
  have z: "m_ProfileCount (sink W) = 0" by (simp add: W_def first_session)
  have h: \<open>content (files W) ''a.json'' = ''{"otherData": {},"traceEvents":[''\<close>
    by (simp add: W_def first_session content_def)
  have m: "microseconds_count 1000 = 1" "microseconds_count 9000 = 9"
    by (simp_all add: microseconds_count_def)
  have t: \<open>spec_event_object \<lparr>m_Name = ''f'', m_ExecutionStart = 1, m_ExecutionEnd = 9, m_ThreadID = 1\<rparr>
            = ''{"cat":"function","dur":8,"name":"f","ph":"X","pid":0,"tid":1,"ts":1}''\<close>
    by (simp add: event_object_unfold emitted_name_def show_int_def show_nat.simps digit_char_def)
  note e = scope_exit_submits_once [of "''f''" 1000 Thrown 9000 1 W]
  note s = e [THEN conjunct2, THEN conjunct1]
  from e [THEN conjunct2, THEN conjunct2, THEN conjunct1]
  have c: "m_ProfileCount (sink (snd (profile_scope ''f'' 1000 [] Thrown 9000 1 W))) = 1"
    unfolding z by simp
  from e [THEN conjunct2, THEN conjunct2, THEN conjunct2, rule_format, OF o]
  have f: \<open>files (snd (profile_scope ''f'' 1000 [] Thrown 9000 1 W)) ''a.json''
       = Some (''{"otherData": {},"traceEvents":['' @
               ''{"cat":"function","dur":8,"name":"f","ph":"X","pid":0,"tid":1,"ts":1}'')\<close>
    unfolding z h m by (simp add: t)
  show ?thesis unfolding W_def [symmetric] by (intro conjI o [THEN conjunct1] o [THEN conjunct2] s c f)
qed

end
